theory Spec2Isabelle
  imports Complex_Main "HOL-Library.Word" "HOL-Library.Monad_Syntax"
begin

unbundle bit_operations_syntax

section \<open>Grid coordinate types (volume.hpp, VolumeBase_t)\<close>

text \<open>
  \<^verbatim>\<open>Position_s\<close> and \<^verbatim>\<open>Displacement_s\<close> are triples of \<^verbatim>\<open>int\<close>; every constructor
  argument defaults to 0.  \<^verbatim>\<open>FPosition_s\<close> is a triple of \<^verbatim>\<open>double\<close>, modelled over the
  reals.  Coordinates are modelled as unbounded integers; all arithmetic done on them by
  the functions below stays between \<open>-1\<close> and the grid extents.
\<close>

datatype Position_s = Position_s (posx: int) (posy: int) (posz: int)

datatype Displacement_s = Displacement_s (difx: int) (dify: int) (difz: int)

datatype FPosition_s = FPosition_s (fx: real) (fy: real) (fz: real)

fun pos_plus :: "Position_s \<Rightarrow> Displacement_s \<Rightarrow> Position_s" where
  "pos_plus (Position_s x y z) (Displacement_s dx dy dz) = Position_s (x + dx) (y + dy) (z + dz)"

fun pos_minus :: "Position_s \<Rightarrow> Position_s \<Rightarrow> Displacement_s" where
  "pos_minus (Position_s x y z) (Position_s x2 y2 z2) = Displacement_s (x - x2) (y - y2) (z - z2)"

fun diff_times :: "Displacement_s \<Rightarrow> int \<Rightarrow> Displacement_s" where
  "diff_times (Displacement_s dx dy dz) f = Displacement_s (f * dx) (f * dy) (f * dz)"

text \<open>
  Failures of the source that are values of the model: a failed \<^verbatim>\<open>assert\<close> aborts the
  program, and an index outside the buffer of a \<^verbatim>\<open>std::vector\<close> is undefined behaviour.
\<close>

datatype error = AssertionFailed | OutOfBounds

section \<open>Octree grid (Volume_t and Volume_t::Node_s)\<close>

text \<open>
  A node is \<^verbatim>\<open>SOLID\<close> with a value, or \<^verbatim>\<open>GRAY\<close> with exactly eight owned subnodes
  \<^verbatim>\<open>subnodes[0..7]\<close>, indexed by octant.  The \<^verbatim>\<open>value\<close> field of a gray node is never
  read, so the model does not carry it.
\<close>

datatype 'a Node_s =
    Solid 'a
  | Gray "'a Node_s" "'a Node_s" "'a Node_s" "'a Node_s" "'a Node_s" "'a Node_s" "'a Node_s" "'a Node_s"

definition OCT_X :: nat where "OCT_X = 4"
definition OCT_Y :: nat where "OCT_Y = 2"
definition OCT_Z :: nat where "OCT_Z = 1"

text \<open>The subnodes of a gray node as a list, and \<^verbatim>\<open>subnodes[i]\<close> read and written.\<close>

fun subnodes :: "'a Node_s \<Rightarrow> 'a Node_s list" where
  "subnodes (Gray a b c d e f g h) = [a, b, c, d, e, f, g, h]"
| "subnodes (Solid u) = []"

fun subnode :: "'a Node_s \<Rightarrow> nat \<Rightarrow> 'a Node_s" where
  "subnode (Gray a b c d e f g h) i =
     (if i = 0 then a else if i = 1 then b else if i = 2 then c else if i = 3 then d
      else if i = 4 then e else if i = 5 then f else if i = 6 then g else h)"
| "subnode (Solid u) i = Solid u"

fun setSubnode :: "'a Node_s \<Rightarrow> nat \<Rightarrow> 'a Node_s \<Rightarrow> 'a Node_s" where
  "setSubnode (Gray a b c d e f g h) i s =
     (if i = 0 then Gray s b c d e f g h else if i = 1 then Gray a s c d e f g h
      else if i = 2 then Gray a b s d e f g h else if i = 3 then Gray a b c s e f g h
      else if i = 4 then Gray a b c d s f g h else if i = 5 then Gray a b c d e s g h
      else if i = 6 then Gray a b c d e f s h else Gray a b c d e f g s)"
| "setSubnode (Solid u) i s = Solid u"

text \<open>
  \<^verbatim>\<open>findOctant\<close>: the assertion first, then one flag per axis whose coordinate lies in the
  upper half; \<^verbatim>\<open>nodeSize >> 1\<close> is \<open>drop_bit 1 nodeSize\<close>.
\<close>

definition findOctant :: "int \<Rightarrow> Position_s \<Rightarrow> error + nat" where
  "findOctant nodeSize pos =
     (if \<not> (posx pos < nodeSize \<and> posy pos < nodeSize \<and> posz pos < nodeSize)
      then Inl AssertionFailed
      else
        let retval = 0;
            retval = (if posx pos \<ge> drop_bit 1 nodeSize then retval OR OCT_X else retval);
            retval = (if posy pos \<ge> drop_bit 1 nodeSize then retval OR OCT_Y else retval);
            retval = (if posz pos \<ge> drop_bit 1 nodeSize then retval OR OCT_Z else retval)
        in Inr retval)"

definition toOctant :: "nat \<Rightarrow> int \<Rightarrow> Position_s \<Rightarrow> Position_s" where
  "toOctant octant nodeSize pos =
     Position_s
       (if octant AND OCT_X \<noteq> 0 then posx pos - drop_bit 1 nodeSize else posx pos)
       (if octant AND OCT_Y \<noteq> 0 then posy pos - drop_bit 1 nodeSize else posy pos)
       (if octant AND OCT_Z \<noteq> 0 then posz pos - drop_bit 1 nodeSize else posz pos)"

definition fromOctant :: "nat \<Rightarrow> int \<Rightarrow> Position_s \<Rightarrow> Position_s" where
  "fromOctant octant nodeSize pos =
     Position_s
       (if octant AND OCT_X \<noteq> 0 then posx pos + drop_bit 1 nodeSize else posx pos)
       (if octant AND OCT_Y \<noteq> 0 then posy pos + drop_bit 1 nodeSize else posy pos)
       (if octant AND OCT_Z \<noteq> 0 then posz pos + drop_bit 1 nodeSize else posz pos)"

text \<open>\<^verbatim>\<open>Node_s::get\<close>: a solid node answers at once, a gray node descends into one octant.\<close>

lemma size_subnode:
  "i < 8 \<Longrightarrow> size (subnode (Gray a b c d e f g h) i) < size (Gray a b c d e f g h)"
  by simp

lemma findOctant_less: "findOctant nodeSize pos = Inr octant \<Longrightarrow> octant < 8"
  by (auto simp: findOctant_def OCT_X_def OCT_Y_def OCT_Z_def Let_def split: if_splits)

function Node_get :: "int \<Rightarrow> Position_s \<Rightarrow> 'a Node_s \<Rightarrow> error + 'a" where
  "Node_get nodeSize pos (Solid u) = Inr u"
| "Node_get nodeSize pos (Gray a b c d e f g h) =
     (case findOctant nodeSize pos of
        Inl err \<Rightarrow> Inl err
      | Inr octant \<Rightarrow>
          Node_get (drop_bit 1 nodeSize) (toOctant octant nodeSize pos)
            (subnode (Gray a b c d e f g h) octant))"
  by pat_completeness auto
termination
proof (relation "measure (\<lambda>(nodeSize, pos, node). size node)")
  show "wf (measure (\<lambda>(nodeSize, pos, node). size node))"
    by simp
next
  fix nodeSize :: int and pos :: Position_s
    and a b c d e f g h :: "'a Node_s" and octant :: nat
  assume "findOctant nodeSize pos = Inr octant"
  then have "octant < 8"
    by (rule findOctant_less)
  then have "size (subnode (Gray a b c d e f g h) octant) < size (Gray a b c d e f g h)"
    by (rule size_subnode)
  then show "((drop_bit 1 nodeSize, toOctant octant nodeSize pos,
                subnode (Gray a b c d e f g h) octant),
              (nodeSize, pos, Gray a b c d e f g h))
             \<in> measure (\<lambda>(nodeSize, pos, node). size node)"
    by simp
qed

text \<open>
  \<^verbatim>\<open>type == SOLID && this->value == value\<close> and the test of the collapse loop,
  \<^verbatim>\<open>subnodes[i]->type != SOLID || subnodes[i]->value != value\<close>, negated.
\<close>

fun isSolidWith :: "'a \<Rightarrow> 'a Node_s \<Rightarrow> bool" where
  "isSolidWith val (Solid u) = (u = val)"
| "isSolidWith val (Gray a b c d e f g h) = False"

fun isSolid :: "'a Node_s \<Rightarrow> bool" where
  "isSolid (Solid u) = True"
| "isSolid (Gray a b c d e f g h) = False"

text \<open>The split of a solid node: eight new solid subnodes holding the former value.\<close>

fun split :: "'a Node_s \<Rightarrow> 'a Node_s" where
  "split (Solid u) =
     Gray (Solid u) (Solid u) (Solid u) (Solid u) (Solid u) (Solid u) (Solid u) (Solid u)"
| "split (Gray a b c d e f g h) = Gray a b c d e f g h"

text \<open>
  The collapse check at the end of \<^verbatim>\<open>Node_s::set\<close>: \<^verbatim>\<open>fullMatch\<close> holds when every
  subnode is solid with the value just written; the node then becomes solid with it.
\<close>

definition fullMatch :: "'a \<Rightarrow> 'a Node_s \<Rightarrow> bool" where
  "fullMatch val node = list_all (isSolidWith val) (subnodes node)"

definition collapse :: "'a \<Rightarrow> 'a Node_s \<Rightarrow> 'a Node_s" where
  "collapse val node = (if fullMatch val node then Solid val else node)"

text \<open>
  \<^verbatim>\<open>Node_s::set\<close>.  The source recurses on \<^verbatim>\<open>nodeSize >> 1\<close> and, on a solid node whose
  value differs, stops only at \<^verbatim>\<open>nodeSize == 1\<close>: for \<^verbatim>\<open>nodeSize <= 0\<close> it can split
  forever.  The function is therefore partial: \<open>None\<close> is "does not return",
  \<open>Some (Inl e)\<close> is an abort, \<open>Some (Inr n)\<close> is the node after the call.
\<close>

partial_function (option)
  Node_set :: "int \<Rightarrow> Position_s \<Rightarrow> 'a \<Rightarrow> 'a Node_s \<Rightarrow> (error + 'a Node_s) option"
where
  "Node_set nodeSize pos val node =
     (if isSolidWith val node then Some (Inr node)
      else if isSolid node \<and> nodeSize = 1 then Some (Inr (Solid val))
      else
        let gray = (if isSolid node then split node else node) in
        case findOctant nodeSize pos of
          Inl err \<Rightarrow> Some (Inl err)
        | Inr octant \<Rightarrow>
            do {
              r \<leftarrow> Node_set (drop_bit 1 nodeSize) (toOctant octant nodeSize pos) val
                     (subnode gray octant);
              case r of
                Inl err \<Rightarrow> Some (Inl err)
              | Inr s \<Rightarrow> Some (Inr (collapse val (setSubnode gray octant s)))
            })"

text \<open>\<^verbatim>\<open>Node_s::nodeCount\<close>.\<close>

fun nodeCount :: "'a Node_s \<Rightarrow> nat" where
  "nodeCount (Solid u) = 1"
| "nodeCount (Gray a b c d e f g h) =
     1 + nodeCount a + nodeCount b + nodeCount c + nodeCount d
       + nodeCount e + nodeCount f + nodeCount g + nodeCount h"

text \<open>
  \<^verbatim>\<open>Volume_t\<close>: the root node, \<^verbatim>\<open>_rootSize\<close>, the logical extents and \<^verbatim>\<open>_initValue\<close>.
\<close>

record 'a Volume_t =
  root :: "'a Node_s"
  rootSize :: int
  sizeX :: int
  sizeY :: int
  sizeZ :: int
  initValue :: 'a

text \<open>
  The constructor computes \<^verbatim>\<open>_rootSize\<close> in floating point, as
  \<^verbatim>\<open>int(round(exp(log(2.0) * ceil(log(max(sizeX, sizeY, sizeZ)) / log(2.0)))))\<close>.
  \<open>Volume_t_init\<close> is the constructor with that number given; \<open>rootSizeOf\<close> is the
  value of the expression in exact arithmetic (and 0 where the logarithm is \<open>-\<infinity>\<close>),
  which is the smallest power of two not below the largest extent.  Rounding in
  \<^verbatim>\<open>log\<close> may make the machine pick the next power of two at an extent that is itself a
  power of two, so the theorems about the octree take \<open>rootSize\<close> to be any power of
  two that is not below the extents.
\<close>

definition Volume_t_init :: "int \<Rightarrow> int \<Rightarrow> int \<Rightarrow> int \<Rightarrow> 'a \<Rightarrow> 'a Volume_t" where
  "Volume_t_init rSize sx sy sz initVal =
     \<lparr>root = Solid initVal, rootSize = rSize, sizeX = sx, sizeY = sy, sizeZ = sz,
      initValue = initVal\<rparr>"

definition rootSizeOf :: "int \<Rightarrow> int" where
  "rootSizeOf m = (if m \<le> 0 then 0 else 2 ^ nat \<lceil>log 2 (real_of_int m)\<rceil>)"

definition Volume_t_new :: "int \<Rightarrow> int \<Rightarrow> int \<Rightarrow> 'a \<Rightarrow> 'a Volume_t" where
  "Volume_t_new sx sy sz initVal =
     Volume_t_init (rootSizeOf (max sx (max sy sz))) sx sy sz initVal"

definition inRange :: "int \<Rightarrow> int \<Rightarrow> int \<Rightarrow> int \<Rightarrow> int \<Rightarrow> int \<Rightarrow> bool" where
  "inRange sx sy sz i j k =
     (\<not> (i < 0 \<or> i \<ge> sx \<or> j < 0 \<or> j \<ge> sy \<or> k < 0 \<or> k \<ge> sz))"

definition Volume_get :: "'a Volume_t \<Rightarrow> int \<Rightarrow> int \<Rightarrow> int \<Rightarrow> error + 'a" where
  "Volume_get vol i j k =
     (if i < 0 \<or> i \<ge> sizeX vol \<or> j < 0 \<or> j \<ge> sizeY vol \<or> k < 0 \<or> k \<ge> sizeZ vol
      then Inr (initValue vol)
      else Node_get (rootSize vol) (Position_s i j k) (root vol))"

definition Volume_set ::
  "'a Volume_t \<Rightarrow> int \<Rightarrow> int \<Rightarrow> int \<Rightarrow> 'a \<Rightarrow> (error + 'a Volume_t) option" where
  "Volume_set vol i j k val =
     (if i < 0 \<or> i \<ge> sizeX vol \<or> j < 0 \<or> j \<ge> sizeY vol \<or> k < 0 \<or> k \<ge> sizeZ vol
      then Some (Inr vol)
      else
        do {
          r \<leftarrow> Node_set (rootSize vol) (Position_s i j k) val (root vol);
          case r of
            Inl err \<Rightarrow> Some (Inl err)
          | Inr n \<Rightarrow> Some (Inr (vol\<lparr>root := n\<rparr>))
        })"

definition Volume_nodeCount :: "'a Volume_t \<Rightarrow> nat" where
  "Volume_nodeCount vol = nodeCount (root vol)"

section \<open>Dense array grid (VolumeArray)\<close>

record 'a VolumeArray =
  aSizeX :: int
  aSizeY :: int
  aSizeZ :: int
  aInitValue :: 'a
  data :: "'a list"

text \<open>
  The constructor fills a buffer of \<^verbatim>\<open>(std::size_t)sizeX*sizeY*sizeZ\<close> cells; the model
  is of a construction that succeeded, so the product is the number of cells.
\<close>

definition VolumeArray_new :: "int \<Rightarrow> int \<Rightarrow> int \<Rightarrow> 'a \<Rightarrow> 'a VolumeArray" where
  "VolumeArray_new sx sy sz initVal =
     \<lparr>aSizeX = sx, aSizeY = sy, aSizeZ = sz, aInitValue = initVal,
      data = replicate (nat (sx * sy * sz)) initVal\<rparr>"

definition cellIndex :: "'a VolumeArray \<Rightarrow> int \<Rightarrow> int \<Rightarrow> int \<Rightarrow> int" where
  "cellIndex arr i j k = k + j * aSizeZ arr + i * aSizeZ arr * aSizeY arr"

definition VolumeArray_get :: "'a VolumeArray \<Rightarrow> int \<Rightarrow> int \<Rightarrow> int \<Rightarrow> error + 'a" where
  "VolumeArray_get arr i j k =
     (if i < 0 \<or> i \<ge> aSizeX arr \<or> j < 0 \<or> j \<ge> aSizeY arr \<or> k < 0 \<or> k \<ge> aSizeZ arr
      then Inr (aInitValue arr)
      else if nat (cellIndex arr i j k) < length (data arr)
      then Inr (data arr ! nat (cellIndex arr i j k))
      else Inl OutOfBounds)"

definition VolumeArray_set ::
  "'a VolumeArray \<Rightarrow> int \<Rightarrow> int \<Rightarrow> int \<Rightarrow> 'a \<Rightarrow> error + 'a VolumeArray" where
  "VolumeArray_set arr i j k val =
     (if i < 0 \<or> i \<ge> aSizeX arr \<or> j < 0 \<or> j \<ge> aSizeY arr \<or> k < 0 \<or> k \<ge> aSizeZ arr
      then Inr arr
      else if nat (cellIndex arr i j k) < length (data arr)
      then Inr (arr\<lparr>data := (data arr)[nat (cellIndex arr i j k) := val]\<rparr>)
      else Inl OutOfBounds)"

text \<open>A sequence of \<^verbatim>\<open>set\<close> calls; the first call that fails or does not return ends it.\<close>

type_synonym 'a set_op = "int \<times> int \<times> int \<times> 'a"

fun Volume_sets :: "'a Volume_t \<Rightarrow> 'a set_op list \<Rightarrow> (error + 'a Volume_t) option" where
  "Volume_sets vol [] = Some (Inr vol)"
| "Volume_sets vol ((i, j, k, val) # ops) =
     (case Volume_set vol i j k val of
        None \<Rightarrow> None
      | Some (Inl err) \<Rightarrow> Some (Inl err)
      | Some (Inr vol') \<Rightarrow> Volume_sets vol' ops)"


section \<open>Properties of the two grid backends\<close>

subsection \<open>Predicates used in the statements\<close>

text \<open>
  \<open>rootSizeOk\<close>: what the constructor's expression delivers for a grid that has a voxel at
  all, a power of two that is not below the largest extent.  \<open>fits d n\<close>: the tree \<open>n\<close> is
  at most \<open>d\<close> levels deep, so that a node of size 1 is never gray.  \<open>inCube d pos\<close>: the
  position lies in the cube of edge \<open>2 ^ d\<close> owned by a node of that size.
\<close>

definition rootSizeOk :: "int \<Rightarrow> int \<Rightarrow> int \<Rightarrow> int \<Rightarrow> bool" where
  "rootSizeOk rSize sx sy sz \<longleftrightarrow>
     (0 < max sx (max sy sz) \<longrightarrow> (\<exists>d. rSize = 2 ^ d) \<and> max sx (max sy sz) \<le> rSize)"

fun fits :: "nat \<Rightarrow> 'a Node_s \<Rightarrow> bool" where
  "fits d (Solid u) = True"
| "fits d (Gray a b c e f g h i) =
     (case d of
        0 \<Rightarrow> False
      | Suc d' \<Rightarrow> fits d' a \<and> fits d' b \<and> fits d' c \<and> fits d' e
                \<and> fits d' f \<and> fits d' g \<and> fits d' h \<and> fits d' i)"

definition inCube :: "nat \<Rightarrow> Position_s \<Rightarrow> bool" where
  "inCube d pos \<longleftrightarrow>
     0 \<le> posx pos \<and> posx pos < 2 ^ d \<and> 0 \<le> posy pos \<and> posy pos < 2 ^ d
     \<and> 0 \<le> posz pos \<and> posz pos < 2 ^ d"

definition Volume_wf :: "'a Volume_t \<Rightarrow> bool" where
  "Volume_wf vol \<longleftrightarrow>
     max (sizeX vol) (max (sizeY vol) (sizeZ vol)) \<le> 0 \<or>
     (\<exists>d. rootSize vol = 2 ^ d \<and> fits d (root vol)
          \<and> sizeX vol \<le> 2 ^ d \<and> sizeY vol \<le> 2 ^ d \<and> sizeZ vol \<le> 2 ^ d)"


text \<open>
  The shape invariant of the octree: no gray node, at any depth, has eight subnodes that
  are all solid with one and the same value.
\<close>

fun sameSolid :: "'a Node_s \<Rightarrow> 'a Node_s \<Rightarrow> bool" where
  "sameSolid (Solid u) (Solid w) = (u = w)"
| "sameSolid (Solid u) (Gray a b c d e f g h) = False"
| "sameSolid (Gray a b c d e f g h) n = False"

definition collapsible :: "'a Node_s \<Rightarrow> bool" where
  "collapsible node =
     (case subnodes node of [] \<Rightarrow> False | s # rest \<Rightarrow> list_all (sameSolid s) (s # rest))"

fun shapeInv :: "'a Node_s \<Rightarrow> bool" where
  "shapeInv (Solid u) = True"
| "shapeInv (Gray a b c d e f g h) =
     (\<not> collapsible (Gray a b c d e f g h)
      \<and> shapeInv a \<and> shapeInv b \<and> shapeInv c \<and> shapeInv d
      \<and> shapeInv e \<and> shapeInv f \<and> shapeInv g \<and> shapeInv h)"

subsection \<open>Subnodes by index\<close>

lemma less8_cases:
  "(i::nat) < 8 \<Longrightarrow> i = 0 \<or> i = 1 \<or> i = 2 \<or> i = 3 \<or> i = 4 \<or> i = 5 \<or> i = 6 \<or> i = 7"
  by arith

lemma subnode_setSubnode:
  "\<not> isSolid g \<Longrightarrow> i < 8 \<Longrightarrow> j < 8 \<Longrightarrow>
   subnode (setSubnode g i s) j = (if i = j then s else subnode g j)"
  by (cases g) (auto dest!: less8_cases)

lemma isSolid_setSubnode: "isSolid (setSubnode g i s) = isSolid g"
  by (cases g) auto

lemma isSolid_split: "\<not> isSolid (split node)"
  by (cases node) auto

lemma isSolidWith_iff: "isSolidWith v n \<longleftrightarrow> n = Solid v"
  by (cases n) auto

lemma sameSolid_iff: "sameSolid s n \<longleftrightarrow> (\<exists>w. s = Solid w \<and> n = Solid w)"
  by (cases s; cases n) auto

lemma fits_Suc_iff: "fits (Suc d) g \<longleftrightarrow> isSolid g \<or> (\<forall>i<8. fits d (subnode g i))"
proof (cases g)
  case (Solid u)
  then show ?thesis by simp
next
  case Gray
  then show ?thesis by (auto simp: All_less_Suc numeral_eq_Suc)
qed

lemma fullMatch_iff: "\<not> isSolid g \<Longrightarrow> fullMatch v g \<longleftrightarrow> (\<forall>i<8. subnode g i = Solid v)"
proof (cases g)
  case (Solid u)
  assume "\<not> isSolid g"
  with Solid show ?thesis by simp
next
  case Gray
  then show ?thesis
    by (auto simp: fullMatch_def All_less_Suc numeral_eq_Suc isSolidWith_iff)
qed

lemma collapsible_iff:
  "\<not> isSolid g \<Longrightarrow> collapsible g \<longleftrightarrow> (\<exists>w. \<forall>i<8. subnode g i = Solid w)"
proof (cases g)
  case (Solid u)
  assume "\<not> isSolid g"
  with Solid show ?thesis by simp
next
  case Gray
  then show ?thesis
    by (auto simp: collapsible_def All_less_Suc numeral_eq_Suc sameSolid_iff)
qed

lemma shapeInv_gray_iff:
  "\<not> isSolid g \<Longrightarrow> shapeInv g \<longleftrightarrow> \<not> collapsible g \<and> (\<forall>i<8. shapeInv (subnode g i))"
proof (cases g)
  case (Solid u)
  assume "\<not> isSolid g"
  with Solid show ?thesis by simp
next
  case (Gray a b c d e f g' h)
  have "(\<forall>i<8. shapeInv (subnode (Gray a b c d e f g' h) i)) \<longleftrightarrow>
        shapeInv a \<and> shapeInv b \<and> shapeInv c \<and> shapeInv d
        \<and> shapeInv e \<and> shapeInv f \<and> shapeInv g' \<and> shapeInv h"
    by (auto simp: All_less_Suc numeral_eq_Suc)
  then show ?thesis
    unfolding Gray shapeInv.simps by blast
qed

subsection \<open>Octants of a cube whose edge is a power of two\<close>

lemma drop_bit_pow2: "drop_bit (Suc 0) ((2::int) ^ Suc d) = 2 ^ d"
  by (simp add: drop_bit_eq_div)

lemma pow2_Suc_ne1: "(2::int) ^ Suc d \<noteq> 1"
proof -
  have "even ((2::int) ^ Suc d)"
    by simp
  then show ?thesis
    by (metis odd_one)
qed

lemma findOctant_cube:
  assumes "inCube (Suc d) pos"
  shows "\<exists>oct<8. findOctant (2 ^ Suc d) pos = Inr oct
           \<and> inCube d (toOctant oct (2 ^ Suc d) pos)"
  using assms
  unfolding inCube_def findOctant_def toOctant_def Let_def OCT_X_def OCT_Y_def OCT_Z_def
  by (cases pos) (simp add: drop_bit_eq_div)

lemma toOctant_inj: "toOctant oct n p = toOctant oct n q \<Longrightarrow> p = q"
  by (cases p; cases q) (auto simp: toOctant_def split: if_splits)

lemma inCube_0: "inCube 0 pos \<longleftrightarrow> pos = Position_s 0 0 0"
  by (cases pos) (auto simp: inCube_def)

subsection \<open>Reading and writing below one node\<close>

lemma Node_get_gray:
  "\<not> isSolid g \<Longrightarrow> Node_get n pos g =
     (case findOctant n pos of
        Inl err \<Rightarrow> Inl err
      | Inr octant \<Rightarrow> Node_get (drop_bit 1 n) (toOctant octant n pos) (subnode g octant))"
  by (cases g) (auto simp del: subnode.simps)

lemma Node_get_split:
  assumes "isSolid node" and "inCube (Suc d) q"
  shows "Node_get (2 ^ Suc d) q (split node) = Node_get (2 ^ Suc d) q node"
proof -
  from assms(1) obtain u where u: "node = Solid u"
    by (cases node) auto
  from findOctant_cube[OF assms(2)] obtain oq where
    oq: "oq < 8" "findOctant (2 ^ Suc d) q = Inr oq"
    by blast
  have "subnode (split (Solid u)) oq = Solid u"
    by simp
  then show ?thesis
    using oq u by (simp del: subnode.simps)
qed


text \<open>A node that \<^verbatim>\<open>Node_s::set\<close> leaves solid holds the value just written.\<close>

lemma Node_set_solid_result:
  "Node_set n pos v node = Some (Inr n') \<Longrightarrow> isSolid n' \<Longrightarrow> n' = Solid v"
  by (subst (asm) Node_set.simps)
    (auto split: if_splits sum.splits Option.bind_splits
      simp: collapse_def isSolid_setSubnode isSolidWith_iff isSolid_split Let_def)

text \<open>
  The main fact about \<^verbatim>\<open>Node_s::set\<close> on a node whose size is \<open>2 ^ d\<close>: it returns, the
  tree still fits, a later \<^verbatim>\<open>get\<close> reads the new value at the written position and the
  old value everywhere else in the cube, and the shape invariant is kept.
\<close>

lemma Node_set_correct:
  "fits d node \<Longrightarrow> inCube d pos \<Longrightarrow>
   \<exists>n'. Node_set (2 ^ d) pos v node = Some (Inr n') \<and> fits d n'
     \<and> (shapeInv node \<longrightarrow> shapeInv n')
     \<and> (\<forall>q. inCube d q \<longrightarrow>
            Node_get (2 ^ d) q n' = (if q = pos then Inr v else Node_get (2 ^ d) q node))"
proof (induction d arbitrary: node pos)
  case 0
  then obtain u where u: "node = Solid u"
    by (cases node) auto
  show ?case
    using 0 u by (subst Node_set.simps) (auto simp: inCube_0)
next
  case (Suc d)
  show ?case
  proof (cases "isSolidWith v node")
    case True
    then have "node = Solid v"
      by (simp add: isSolidWith_iff)
    then show ?thesis
      using Suc.prems by (subst Node_set.simps) auto
  next
    case False
    define gray where "gray = (if isSolid node then split node else node)"
    have ng: "\<not> isSolid gray"
      unfolding gray_def by (cases node) auto
    have fg: "fits (Suc d) gray"
      using Suc.prems(1) unfolding gray_def by (cases node) auto
    have sg: "shapeInv (subnode gray j)" if "shapeInv node" "j < 8" for j
    proof (cases "isSolid node")
      case True
      then obtain u where "node = Solid u"
        by (cases node) auto
      then show ?thesis
        unfolding gray_def by simp
    next
      case False
      then show ?thesis
        using that unfolding gray_def by (simp add: shapeInv_gray_iff)
    qed
    have gg: "Node_get (2 ^ Suc d) q gray = Node_get (2 ^ Suc d) q node"
      if "inCube (Suc d) q" for q
      using that unfolding gray_def by (simp add: Node_get_split del: power_Suc)
    from findOctant_cube[OF Suc.prems(2)] obtain oct where
      oct: "oct < 8" "findOctant (2 ^ Suc d) pos = Inr oct"
        "inCube d (toOctant oct (2 ^ Suc d) pos)"
      by blast
    have fs: "fits d (subnode gray oct)"
      using fg ng oct(1) by (simp add: fits_Suc_iff)
    from Suc.IH[OF fs oct(3)] obtain s where
      s: "Node_set (2 ^ d) (toOctant oct (2 ^ Suc d) pos) v (subnode gray oct) = Some (Inr s)"
        "fits d s"
        "shapeInv (subnode gray oct) \<Longrightarrow> shapeInv s"
        "\<And>q. inCube d q \<Longrightarrow> Node_get (2 ^ d) q s =
            (if q = toOctant oct (2 ^ Suc d) pos then Inr v
             else Node_get (2 ^ d) q (subnode gray oct))"
      by blast
    define g' where "g' = setSubnode gray oct s"
    have ng': "\<not> isSolid g'"
      unfolding g'_def using ng by (simp add: isSolid_setSubnode)
    have sub': "subnode g' j = (if oct = j then s else subnode gray j)" if "j < 8" for j
      unfolding g'_def using ng oct(1) that by (simp add: subnode_setSubnode)
    have fg': "fits (Suc d) g'"
      using fg ng s(2) by (auto simp: fits_Suc_iff sub')
    have step: "Node_set (2 ^ Suc d) pos v node = Some (Inr (collapse v g'))"
      using False oct(2) s(1)
      by (subst Node_set.simps)
        (simp add: gray_def[symmetric] g'_def drop_bit_pow2 pow2_Suc_ne1 del: power_Suc)
    have fc: "fits (Suc d) (collapse v g')"
      using fg' by (simp add: collapse_def)
    have shape: "shapeInv (collapse v g')" if sn: "shapeInv node"
    proof (cases "fullMatch v g'")
      case True
      then show ?thesis
        by (simp add: collapse_def)
    next
      case nf: False
      have kids: "shapeInv (subnode g' j)" if "j < 8" for j
        using that sg[OF sn] s(3) oct(1) by (simp add: sub')
      have "\<not> collapsible g'"
      proof
        assume "collapsible g'"
        then obtain w where w: "\<And>j. j < 8 \<Longrightarrow> subnode g' j = Solid w"
          using ng' by (auto simp: collapsible_iff)
        from w[OF oct(1)] have "s = Solid w"
          using oct(1) by (simp add: sub')
        with Node_set_solid_result[OF s(1)] have "w = v"
          by simp
        with w have "fullMatch v g'"
          using ng' by (simp add: fullMatch_iff)
        with nf show False
          by simp
      qed
      with kids show ?thesis
        using nf ng' by (simp add: collapse_def shapeInv_gray_iff)
    qed
    have get': "Node_get (2 ^ Suc d) q (collapse v g') =
                (if q = pos then Inr v else Node_get (2 ^ Suc d) q node)"
      if q: "inCube (Suc d) q" for q
    proof -
      from findOctant_cube[OF q] obtain oq where
        oq: "oq < 8" "findOctant (2 ^ Suc d) q = Inr oq"
          "inCube d (toOctant oq (2 ^ Suc d) q)"
        by blast
      have g1: "Node_get (2 ^ Suc d) q g' =
                Node_get (2 ^ d) (toOctant oq (2 ^ Suc d) q) (subnode g' oq)"
        using ng' oq(2) by (simp add: Node_get_gray drop_bit_pow2 del: power_Suc)
      have c: "Node_get (2 ^ Suc d) q (collapse v g') = Node_get (2 ^ Suc d) q g'"
      proof (cases "fullMatch v g'")
        case True
        then have "subnode g' oq = Solid v"
          using ng' oq(1) by (simp add: fullMatch_iff)
        then show ?thesis
          using True g1 by (simp add: collapse_def del: power_Suc)
      next
        case False
        then show ?thesis
          by (simp add: collapse_def)
      qed
      have g0: "Node_get (2 ^ Suc d) q gray =
                Node_get (2 ^ d) (toOctant oq (2 ^ Suc d) q) (subnode gray oq)"
        using ng oq(2) by (simp add: Node_get_gray drop_bit_pow2 del: power_Suc)
      show ?thesis
      proof (cases "oq = oct")
        case True
        have "q = pos \<longleftrightarrow> toOctant oct (2 ^ Suc d) q = toOctant oct (2 ^ Suc d) pos"
          using toOctant_inj by blast
        then show ?thesis
          using c g1 g0 gg[OF q] sub'[OF oq(1)] s(4)[OF oq(3)] True by (simp del: power_Suc)
      next
        case False
        then have "q \<noteq> pos"
          using oq(2) oct(2) by auto
        then show ?thesis
          using c g1 g0 gg[OF q] sub'[OF oq(1)] False by (simp del: power_Suc)
      qed
    qed
    show ?thesis
      using step fc shape get' by blast
  qed
qed

subsection \<open>Reading and writing through the volume and the array\<close>

lemma inRange_alt:
  "inRange sx sy sz i j k \<longleftrightarrow> 0 \<le> i \<and> i < sx \<and> 0 \<le> j \<and> j < sy \<and> 0 \<le> k \<and> k < sz"
  by (auto simp: inRange_def)

lemma Volume_get_inRange:
  "Volume_get vol i j k =
     (if inRange (sizeX vol) (sizeY vol) (sizeZ vol) i j k
      then Node_get (rootSize vol) (Position_s i j k) (root vol) else Inr (initValue vol))"
  by (auto simp: Volume_get_def inRange_def)

lemma Volume_wf_cube:
  assumes "Volume_wf vol" and "inRange (sizeX vol) (sizeY vol) (sizeZ vol) i j k"
  shows "\<exists>d. rootSize vol = 2 ^ d \<and> fits d (root vol)
           \<and> (\<forall>a b c. inRange (sizeX vol) (sizeY vol) (sizeZ vol) a b c
                  \<longrightarrow> inCube d (Position_s a b c))"
proof -
  from assms(2) have "0 < max (sizeX vol) (max (sizeY vol) (sizeZ vol))"
    by (auto simp: inRange_alt)
  with assms(1) obtain d where d: "rootSize vol = 2 ^ d" "fits d (root vol)"
    "sizeX vol \<le> 2 ^ d" "sizeY vol \<le> 2 ^ d" "sizeZ vol \<le> 2 ^ d"
    unfolding Volume_wf_def by auto
  then show ?thesis
    by (auto simp: inRange_alt inCube_def)
qed


lemma Volume_set_correct:
  assumes wf: "Volume_wf vol"
  shows "\<exists>vol'. Volume_set vol i j k v = Some (Inr vol') \<and> Volume_wf vol'
           \<and> sizeX vol' = sizeX vol \<and> sizeY vol' = sizeY vol \<and> sizeZ vol' = sizeZ vol
           \<and> initValue vol' = initValue vol \<and> rootSize vol' = rootSize vol
           \<and> (shapeInv (root vol) \<longrightarrow> shapeInv (root vol'))
           \<and> (\<forall>a b c. Volume_get vol' a b c =
                 (if inRange (sizeX vol) (sizeY vol) (sizeZ vol) i j k \<and> a = i \<and> b = j \<and> c = k
                  then Inr v else Volume_get vol a b c))"
proof (cases "inRange (sizeX vol) (sizeY vol) (sizeZ vol) i j k")
  case False
  then have "Volume_set vol i j k v = Some (Inr vol)"
    by (auto simp: Volume_set_def inRange_def)
  then show ?thesis
    using wf False by simp
next
  case True
  from Volume_wf_cube[OF wf True] obtain d where
    d: "rootSize vol = 2 ^ d" "fits d (root vol)"
      "\<And>a b c. inRange (sizeX vol) (sizeY vol) (sizeZ vol) a b c \<Longrightarrow> inCube d (Position_s a b c)"
    by blast
  from wf True d(1) have sz: "sizeX vol \<le> 2 ^ d" "sizeY vol \<le> 2 ^ d" "sizeZ vol \<le> 2 ^ d"
    using d(3)[of "sizeX vol - 1" j k] d(3)[of i "sizeY vol - 1" k] d(3)[of i j "sizeZ vol - 1"]
    by (auto simp: inRange_alt inCube_def)
  from Node_set_correct[OF d(2) d(3)[OF True], of v] obtain n' where
    n': "Node_set (2 ^ d) (Position_s i j k) v (root vol) = Some (Inr n')" "fits d n'"
      "shapeInv (root vol) \<Longrightarrow> shapeInv n'"
      "\<And>q. inCube d q \<Longrightarrow> Node_get (2 ^ d) q n' =
          (if q = Position_s i j k then Inr v else Node_get (2 ^ d) q (root vol))"
    by blast
  have set: "Volume_set vol i j k v = Some (Inr (vol\<lparr>root := n'\<rparr>))"
    using True n'(1) d(1) by (auto simp: Volume_set_def inRange_def)
  have wf': "Volume_wf (vol\<lparr>root := n'\<rparr>)"
    unfolding Volume_wf_def using d(1) sz n'(2) by auto
  have get: "Volume_get (vol\<lparr>root := n'\<rparr>) a b c =
               (if inRange (sizeX vol) (sizeY vol) (sizeZ vol) i j k \<and> a = i \<and> b = j \<and> c = k
                then Inr v else Volume_get vol a b c)" for a b c
  proof (cases "inRange (sizeX vol) (sizeY vol) (sizeZ vol) a b c")
    case False
    then show ?thesis
      using True by (auto simp: Volume_get_inRange)
  next
    case r: True
    show ?thesis
      using n'(4)[OF d(3)[OF r]] True r d(1) by (auto simp: Volume_get_inRange)
  qed
  show ?thesis
    using set wf' get n'(3) by simp
qed





subsection \<open>Sequences of writes\<close>


lemma Volume_sets_shape:
  assumes "Volume_wf vol" and "shapeInv (root vol)"
  shows "\<exists>vol'. Volume_sets vol ops = Some (Inr vol') \<and> shapeInv (root vol')"
  using assms
proof (induction ops arbitrary: vol)
  case Nil
  then show ?case
    by simp
next
  case (Cons op ops)
  obtain i j k v where op: "op = (i, j, k, v)"
    by (cases op) auto
  from Volume_set_correct[OF Cons.prems(1), of i j k v] Cons.prems(2) obtain vol1 where
    v1: "Volume_set vol i j k v = Some (Inr vol1)" "Volume_wf vol1" "shapeInv (root vol1)"
    by blast
  from Cons.IH[OF v1(2,3)] v1(1) show ?case
    unfolding op by simp
qed

lemma Volume_t_init_wf: "rootSizeOk r sx sy sz \<Longrightarrow> Volume_wf (Volume_t_init r sx sy sz initVal)"
  by (auto simp: rootSizeOk_def Volume_wf_def Volume_t_init_def)




text \<open>The exact value of the constructor's expression is such a root size.\<close>

lemma rootSizeOf_ok: "rootSizeOk (rootSizeOf (max sx (max sy sz))) sx sy sz"
proof -
  define m where "m = max sx (max sy sz)"
  have "(\<exists>d. rootSizeOf m = 2 ^ d) \<and> m \<le> rootSizeOf m" if "0 < m"
  proof -
    let ?c = "\<lceil>log 2 (real_of_int m)\<rceil>"
    have r: "rootSizeOf m = 2 ^ nat ?c"
      using that by (simp add: rootSizeOf_def)
    have "log 2 (real_of_int m) \<ge> 0"
      using that by simp
    then have c0: "0 \<le> ?c"
      by linarith
    have "real_of_int m = 2 powr log 2 (real_of_int m)"
      using that by simp
    also have "\<dots> \<le> 2 powr real_of_int ?c"
      by (intro powr_mono) auto
    also have "\<dots> = 2 ^ nat ?c"
      using c0 by (simp add: powr_real_of_int)
    finally have "real_of_int m \<le> real_of_int (2 ^ nat ?c)"
      by simp
    then have "m \<le> 2 ^ nat ?c"
      by linarith
    with r show ?thesis
      by auto
  qed
  then show ?thesis
    unfolding rootSizeOk_def m_def by simp
qed

subsection \<open>The claims about the grid backends\<close>



text \<open>
  Claim C2 (out-of-range coordinates).  For any octree volume and any array, at a
  coordinate triple outside the extents \<^verbatim>\<open>get\<close> returns the initial value and \<^verbatim>\<open>set\<close>
  returns the grid as it was, so no voxel changes; both return normally, neither fails.
\<close>

theorem out_of_range_get_set:
  "(i < 0 \<or> i \<ge> sizeX vol \<or> j < 0 \<or> j \<ge> sizeY vol \<or> k < 0 \<or> k \<ge> sizeZ vol
      \<longrightarrow> Volume_get vol i j k = Inr (initValue vol)
          \<and> Volume_set vol i j k v = Some (Inr vol))
   \<and> (i < 0 \<or> i \<ge> aSizeX arr \<or> j < 0 \<or> j \<ge> aSizeY arr \<or> k < 0 \<or> k \<ge> aSizeZ arr
      \<longrightarrow> VolumeArray_get arr i j k = Inr (aInitValue arr)
          \<and> VolumeArray_set arr i j k v = Inr arr)"
  by (simp add: Volume_get_def Volume_set_def VolumeArray_get_def VolumeArray_set_def)

theorem out_of_range_get_set_witness:
  "Volume_get (Volume_t_init 2 2 2 1 (0::int)) 0 2 0 = Inr 0
   \<and> Volume_set (Volume_t_init 2 2 2 1 (0::int)) 0 2 0 5 = Some (Inr (Volume_t_init 2 2 2 1 0))
   \<and> VolumeArray_get (VolumeArray_new 2 2 1 (0::int)) 0 2 0 = Inr 0
   \<and> VolumeArray_set (VolumeArray_new 2 2 1 (0::int)) 0 2 0 5 = Inr (VolumeArray_new 2 2 1 0)"
  using out_of_range_get_set[of 0 "Volume_t_init 2 2 2 1 (0::int)" 2 0 5 "VolumeArray_new 2 2 1 (0::int)"]
  by (simp add: Volume_t_init_def VolumeArray_new_def)

text \<open>
  Claim C3 (octree shape invariant).  In every volume reached from construction by a
  sequence of \<^verbatim>\<open>set\<close> calls, no gray node has eight subnodes that are all solid with one
  value: \<^verbatim>\<open>Node_s::set\<close> collapses such a node before it returns.
\<close>

theorem octree_shape_invariant:
  assumes "rootSizeOk rSize sx sy sz"
  shows "\<exists>vol. Volume_sets (Volume_t_init rSize sx sy sz initVal) ops = Some (Inr vol)
           \<and> shapeInv (root vol)"
proof -
  have "shapeInv (root (Volume_t_init rSize sx sy sz initVal))"
    by (simp add: Volume_t_init_def)
  with Volume_t_init_wf[OF assms] show ?thesis
    by (rule Volume_sets_shape)
qed

theorem octree_shape_invariant_witness:
  "rootSizeOk 2 2 2 2
   \<and> Volume_sets (Volume_t_init 2 2 2 2 (0::int))
        [(0,0,0,5), (0,0,1,5), (0,1,0,5), (0,1,1,5), (1,0,0,5), (1,0,1,5), (1,1,0,5), (1,1,1,5)]
       = Some (Inr \<lparr>root = Solid 5, rootSize = 2, sizeX = 2, sizeY = 2, sizeZ = 2, initValue = 0\<rparr>)
   \<and> Volume_sets (Volume_t_init 2 2 2 2 (0::int))
        [(0,0,0,5), (0,0,1,5), (0,1,0,5), (0,1,1,5), (1,0,0,5), (1,0,1,5), (1,1,0,5), (1,1,1,5),
         (0,0,1,3)]
       = Some (Inr \<lparr>root = Gray (Solid 5) (Solid 3) (Solid 5) (Solid 5)
                               (Solid 5) (Solid 5) (Solid 5) (Solid 5),
                     rootSize = 2, sizeX = 2, sizeY = 2, sizeZ = 2, initValue = 0\<rparr>)
   \<and> shapeInv (Gray (Solid 5) (Solid 3) (Solid 5) (Solid 5)
                     (Solid 5) (Solid 5) (Solid 5) (Solid (5::int)))"
proof -
  have ok: "rootSizeOk 2 2 2 2"
    unfolding rootSizeOk_def by (auto intro: exI[of _ 1])
  let ?ops8 = "[(0,0,0,5), (0,0,1,5), (0,1,0,5), (0,1,1,5), (1,0,0,5), (1,0,1,5), (1,1,0,5),
                (1,1,1,5::int)]"
  let ?ops9 = "[(0,0,0,5), (0,0,1,5), (0,1,0,5), (0,1,1,5), (1,0,0,5), (1,0,1,5), (1,1,0,5),
                (1,1,1,5), (0,0,1,3::int)]"
  have ev8: "Volume_sets (Volume_t_init 2 2 2 2 (0::int)) ?ops8
      = Some (Inr \<lparr>root = Solid 5, rootSize = 2, sizeX = 2, sizeY = 2, sizeZ = 2, initValue = 0\<rparr>)"
    by (simp add: Volume_t_init_def Volume_set_def Node_set.simps findOctant_def toOctant_def
        OCT_X_def OCT_Y_def OCT_Z_def collapse_def fullMatch_def drop_bit_eq_div)
  have ev9: "Volume_sets (Volume_t_init 2 2 2 2 (0::int)) ?ops9
      = Some (Inr \<lparr>root = Gray (Solid 5) (Solid 3) (Solid 5) (Solid 5)
                              (Solid 5) (Solid 5) (Solid 5) (Solid 5),
                    rootSize = 2, sizeX = 2, sizeY = 2, sizeZ = 2, initValue = 0\<rparr>)"
    by (simp add: Volume_t_init_def Volume_set_def Node_set.simps findOctant_def toOctant_def
        OCT_X_def OCT_Y_def OCT_Z_def collapse_def fullMatch_def drop_bit_eq_div)
  from octree_shape_invariant[OF ok, of 0 ?ops9] ev9
  have "shapeInv (Gray (Solid 5) (Solid 3) (Solid 5) (Solid 5)
                     (Solid 5) (Solid 5) (Solid 5) (Solid (5::int)))"
    by auto
  with ok ev8 ev9 show ?thesis
    by blast
qed

section \<open>Georeferencing layer (GeoVolume_t)\<close>

text \<open>
  \<^verbatim>\<open>Container_t\<close> is a template parameter; the repository has two containers, the octree
  \<^verbatim>\<open>Volume_t\<close> (the default) and \<^verbatim>\<open>VolumeArray\<close>.
\<close>

datatype 'v Container_t = OctreeC "'v Volume_t" | ArrayC "'v VolumeArray"

datatype ContainerKind = KVolume_t | KVolumeArray

fun Container_new :: "ContainerKind \<Rightarrow> int \<Rightarrow> int \<Rightarrow> int \<Rightarrow> 'v \<Rightarrow> 'v Container_t" where
  "Container_new KVolume_t sx sy sz initVal = OctreeC (Volume_t_new sx sy sz initVal)"
| "Container_new KVolumeArray sx sy sz initVal = ArrayC (VolumeArray_new sx sy sz initVal)"

fun cSizeX :: "'v Container_t \<Rightarrow> int" where
  "cSizeX (OctreeC vol) = sizeX vol"
| "cSizeX (ArrayC arr) = aSizeX arr"

fun cSizeY :: "'v Container_t \<Rightarrow> int" where
  "cSizeY (OctreeC vol) = sizeY vol"
| "cSizeY (ArrayC arr) = aSizeY arr"

fun cSizeZ :: "'v Container_t \<Rightarrow> int" where
  "cSizeZ (OctreeC vol) = sizeZ vol"
| "cSizeZ (ArrayC arr) = aSizeZ arr"

fun cGet :: "'v Container_t \<Rightarrow> int \<Rightarrow> int \<Rightarrow> int \<Rightarrow> error + 'v" where
  "cGet (OctreeC vol) i j k = Volume_get vol i j k"
| "cGet (ArrayC arr) i j k = VolumeArray_get arr i j k"

text \<open>
  \<^verbatim>\<open>GeoVolume_t\<close>: a container with world-space corners and a voxel size, all \<^verbatim>\<open>double\<close>
  and modelled over the reals.  The constructor sizes the container by
  \<^verbatim>\<open>int(std::ceil((upper - lower) / voxelSize))\<close> per axis and then moves the upper corner
  so that the extent is a whole number of voxels.
\<close>

record 'v GeoVolume_t =
  container :: "'v Container_t"
  lower :: FPosition_s
  upper :: FPosition_s
  voxelSize :: real

definition GeoVolume_t_new ::
  "ContainerKind \<Rightarrow> FPosition_s \<Rightarrow> FPosition_s \<Rightarrow> real \<Rightarrow> 'v \<Rightarrow> 'v GeoVolume_t" where
  "GeoVolume_t_new kind lo up vSize initVal =
     (let c = Container_new kind
                \<lceil>(fx up - fx lo) / vSize\<rceil> \<lceil>(fy up - fy lo) / vSize\<rceil> \<lceil>(fz up - fz lo) / vSize\<rceil>
                initVal
      in \<lparr>container = c, lower = lo,
          upper = FPosition_s (fx lo + real_of_int (cSizeX c) * vSize)
                              (fy lo + real_of_int (cSizeY c) * vSize)
                              (fz lo + real_of_int (cSizeZ c) * vSize),
          voxelSize = vSize\<rparr>)"

text \<open>\<^verbatim>\<open>GeoVolume_t::get\<close> and \<^verbatim>\<open>GeoVolume_t::set\<close> pass the call to the container.\<close>

definition GeoVolume_get :: "'v GeoVolume_t \<Rightarrow> int \<Rightarrow> int \<Rightarrow> int \<Rightarrow> error + 'v" where
  "GeoVolume_get gv i j k = cGet (container gv) i j k"

text \<open>
  Calls that write to the octree may abort or, in the model of \<^verbatim>\<open>Node_s::set\<close>, not return;
  \<open>bindO\<close> sequences them and \<open>forO\<close> is a \<^verbatim>\<open>for\<close> loop over a list of indices.
\<close>

type_synonym 'a outcome = "(error + 'a) option"

fun bindO :: "'a outcome \<Rightarrow> ('a \<Rightarrow> 'b outcome) \<Rightarrow> 'b outcome" where
  "bindO None f = None"
| "bindO (Some (Inl err)) f = Some (Inl err)"
| "bindO (Some (Inr a)) f = f a"

fun forO :: "'i list \<Rightarrow> ('i \<Rightarrow> 's \<Rightarrow> 's outcome) \<Rightarrow> 's \<Rightarrow> 's outcome" where
  "forO [] body s = Some (Inr s)"
| "forO (i # is) body s = bindO (body i s) (forO is body)"

fun cSet :: "'v Container_t \<Rightarrow> int \<Rightarrow> int \<Rightarrow> int \<Rightarrow> 'v \<Rightarrow> 'v Container_t outcome" where
  "cSet (OctreeC vol) i j k val =
     bindO (Volume_set vol i j k val) (\<lambda>vol'. Some (Inr (OctreeC vol')))"
| "cSet (ArrayC arr) i j k val =
     bindO (Some (VolumeArray_set arr i j k val)) (\<lambda>arr'. Some (Inr (ArrayC arr')))"

definition GeoVolume_set :: "'v GeoVolume_t \<Rightarrow> int \<Rightarrow> int \<Rightarrow> int \<Rightarrow> 'v \<Rightarrow> 'v GeoVolume_t outcome" where
  "GeoVolume_set gv i j k val =
     bindO (cSet (container gv) i j k val) (\<lambda>c. Some (Inr (gv\<lparr>container := c\<rparr>)))"

text \<open>A write changes voxel values only: extents, corners and voxel size stay.\<close>

lemma bindO_Inr:
  "bindO m f = Some (Inr y) \<Longrightarrow> \<exists>a. m = Some (Inr a) \<and> f a = Some (Inr y)"
  by (cases "(m, f)" rule: bindO.cases) auto

lemma Volume_set_sizes:
  "Volume_set vol i j k val = Some (Inr vol') \<Longrightarrow>
   sizeX vol' = sizeX vol \<and> sizeY vol' = sizeY vol \<and> sizeZ vol' = sizeZ vol"
  by (auto simp: Volume_set_def split: if_splits sum.splits Option.bind_splits)

lemma VolumeArray_set_sizes:
  "VolumeArray_set arr i j k val = Inr arr' \<Longrightarrow>
   aSizeX arr' = aSizeX arr \<and> aSizeY arr' = aSizeY arr \<and> aSizeZ arr' = aSizeZ arr"
  by (auto simp: VolumeArray_set_def split: if_splits)

lemma cSet_sizes:
  "cSet c i j k val = Some (Inr c') \<Longrightarrow>
   cSizeX c' = cSizeX c \<and> cSizeY c' = cSizeY c \<and> cSizeZ c' = cSizeZ c"
proof (cases c)
  case (OctreeC vol)
  assume "cSet c i j k val = Some (Inr c')"
  with OctreeC obtain vol' where "Volume_set vol i j k val = Some (Inr vol')" "c' = OctreeC vol'"
    by (auto dest!: bindO_Inr)
  with OctreeC show ?thesis using Volume_set_sizes[of vol i j k val vol'] by simp
next
  case (ArrayC arr)
  assume "cSet c i j k val = Some (Inr c')"
  with ArrayC obtain arr' where "VolumeArray_set arr i j k val = Inr arr'" "c' = ArrayC arr'"
    by (auto dest!: bindO_Inr)
  with ArrayC show ?thesis using VolumeArray_set_sizes[of arr i j k val arr'] by simp
qed

lemma GeoVolume_set_frame:
  assumes "GeoVolume_set gv i j k val = Some (Inr gv')"
  shows "cSizeX (container gv') = cSizeX (container gv)
   \<and> cSizeY (container gv') = cSizeY (container gv)
   \<and> cSizeZ (container gv') = cSizeZ (container gv)
   \<and> lower gv' = lower gv \<and> upper gv' = upper gv \<and> voxelSize gv' = voxelSize gv"
proof -
  from assms obtain c where c: "cSet (container gv) i j k val = Some (Inr c)"
    and g: "gv' = gv\<lparr>container := c\<rparr>"
    unfolding GeoVolume_set_def by (auto dest!: bindO_Inr)
  from cSet_sizes[OF c] g show ?thesis by simp
qed

text \<open>
  The C library's \<^verbatim>\<open>round\<close> rounds half-way cases away from zero.  \<^verbatim>\<open>geo2grid\<close> starts from
  a default-constructed \<^verbatim>\<open>Position_s\<close>, which is \<open>(0, 0, 0)\<close>, and each of its three
  \<^verbatim>\<open>switch\<close> statements has the cases 0, -1 and 1 and no default.
\<close>

definition c_round :: "real \<Rightarrow> int" where
  "c_round r = (if 0 \<le> r then \<lfloor>r + 1 / 2\<rfloor> else \<lceil>r - 1 / 2\<rceil>)"

definition geo2gridf :: "'v GeoVolume_t \<Rightarrow> FPosition_s \<Rightarrow> FPosition_s" where
  "geo2gridf gv gpos =
     FPosition_s
       ((fx gpos - fx (lower gv)) / (fx (upper gv) - fx (lower gv))
          * real_of_int (cSizeX (container gv)) - 1 / 2)
       ((fy gpos - fy (lower gv)) / (fy (upper gv) - fy (lower gv))
          * real_of_int (cSizeY (container gv)) - 1 / 2)
       ((fz gpos - fz (lower gv)) / (fz (upper gv) - fz (lower gv))
          * real_of_int (cSizeZ (container gv)) - 1 / 2)"

definition roundAxis :: "int \<Rightarrow> real \<Rightarrow> int \<Rightarrow> int" where
  "roundAxis rounding f dflt =
     (if rounding = 0 then c_round f
      else if rounding = - 1 then c_round (real_of_int \<lfloor>f\<rfloor>)
      else if rounding = 1 then c_round (real_of_int \<lceil>f\<rceil>)
      else dflt)"

definition geo2grid :: "'v GeoVolume_t \<Rightarrow> FPosition_s \<Rightarrow> int \<Rightarrow> int \<Rightarrow> int \<Rightarrow> Position_s" where
  "geo2grid gv gpos roundingX roundingY roundingZ =
     (let fpos = geo2gridf gv gpos;
          retval = Position_s 0 0 0
      in Position_s (roundAxis roundingX (fx fpos) (posx retval))
                    (roundAxis roundingY (fy fpos) (posy retval))
                    (roundAxis roundingZ (fz fpos) (posz retval)))"

definition grid2geoF :: "'v GeoVolume_t \<Rightarrow> FPosition_s \<Rightarrow> FPosition_s" where
  "grid2geoF gv pos =
     FPosition_s
       (fx (lower gv) + (fx pos + 1 / 2) / real_of_int (cSizeX (container gv))
          * (fx (upper gv) - fx (lower gv)))
       (fy (lower gv) + (fy pos + 1 / 2) / real_of_int (cSizeY (container gv))
          * (fy (upper gv) - fy (lower gv)))
       (fz (lower gv) + (fz pos + 1 / 2) / real_of_int (cSizeZ (container gv))
          * (fz (upper gv) - fz (lower gv)))"


text \<open>
  Claim C10 (rounding argument outside -1, 0, 1).  For every georeferenced volume, world
  position and rounding arguments, an axis whose rounding argument is none of -1, 0, 1
  gets the component 0 in the result of \<^verbatim>\<open>geo2grid\<close>, whatever the position.
\<close>

theorem geo2grid_unknown_rounding:
  "(roundingX \<noteq> 0 \<and> roundingX \<noteq> - 1 \<and> roundingX \<noteq> 1
      \<longrightarrow> posx (geo2grid gv gpos roundingX roundingY roundingZ) = 0)
   \<and> (roundingY \<noteq> 0 \<and> roundingY \<noteq> - 1 \<and> roundingY \<noteq> 1
      \<longrightarrow> posy (geo2grid gv gpos roundingX roundingY roundingZ) = 0)
   \<and> (roundingZ \<noteq> 0 \<and> roundingZ \<noteq> - 1 \<and> roundingZ \<noteq> 1
      \<longrightarrow> posz (geo2grid gv gpos roundingX roundingY roundingZ) = 0)"
  by (simp add: geo2grid_def roundAxis_def Let_def)

lemma Volume_t_new_sizes [simp]:
  "sizeX (Volume_t_new sx sy sz initVal) = sx"
  "sizeY (Volume_t_new sx sy sz initVal) = sy"
  "sizeZ (Volume_t_new sx sy sz initVal) = sz"
  "initValue (Volume_t_new sx sy sz initVal) = initVal"
  by (simp_all add: Volume_t_new_def Volume_t_init_def)

lemma VolumeArray_new_sizes [simp]:
  "aSizeX (VolumeArray_new sx sy sz initVal) = sx"
  "aSizeY (VolumeArray_new sx sy sz initVal) = sy"
  "aSizeZ (VolumeArray_new sx sy sz initVal) = sz"
  "aInitValue (VolumeArray_new sx sy sz initVal) = initVal"
  by (simp_all add: VolumeArray_new_def)

lemma cSize_new [simp]:
  "cSizeX (Container_new kind sx sy sz initVal) = sx"
  "cSizeY (Container_new kind sx sy sz initVal) = sy"
  "cSizeZ (Container_new kind sx sy sz initVal) = sz"
  by (cases kind; simp add: Volume_t_new_def Volume_t_init_def VolumeArray_new_def)+

theorem geo2grid_unknown_rounding_witness:
  "geo2grid (GeoVolume_t_new KVolume_t (FPosition_s 0 0 0) (FPosition_s 4 4 4) 1 (0::int))
      (FPosition_s 3 3 3) 2 0 (- 5) = Position_s 0 3 0"
proof -
  let ?gv = "GeoVolume_t_new KVolume_t (FPosition_s 0 0 0) (FPosition_s 4 4 4) 1 (0::int)"
  let ?p = "geo2grid ?gv (FPosition_s 3 3 3) 2 0 (- 5)"
  from geo2grid_unknown_rounding[of 2 ?gv "FPosition_s 3 3 3" 0 "- 5"]
  have "posx ?p = 0" and "posz ?p = 0"
    by simp_all
  moreover have "posy ?p = 3"
    by (simp add: geo2grid_def roundAxis_def geo2gridf_def GeoVolume_t_new_def c_round_def Let_def
        Volume_t_new_def Volume_t_init_def)
  ultimately show ?thesis
    by (cases ?p) simp
qed












section \<open>Single-precision values\<close>

text \<open>
  \<^verbatim>\<open>double\<close> values are modelled as reals.  Where the source stores a value into a
  \<^verbatim>\<open>float\<close> and an integer result depends on it (\<^verbatim>\<open>shift\<close> in \<^verbatim>\<open>downscale\<close>, \<^verbatim>\<open>u\<close> and
  \<^verbatim>\<open>toss\<close> in \<^verbatim>\<open>gend\<close>), the model rounds: \<open>f32\<close> is the conversion to IEEE 754 binary32,
  to the nearest value with 24 significant bits, ties to the even one (overflow and
  subnormal numbers left aside: the values here are far from both).
\<close>

definition roundHalfEven :: "real \<Rightarrow> int" where
  "roundHalfEven r =
     (let f = \<lfloor>r\<rfloor> in
      if r - real_of_int f < 1 / 2 then f
      else if r - real_of_int f > 1 / 2 then f + 1
      else if even f then f else f + 1)"

definition f32 :: "real \<Rightarrow> real" where
  "f32 r =
     (if r = 0 then 0
      else let q = 2 powr (real_of_int (\<lfloor>log 2 \<bar>r\<bar>\<rfloor> - 23))
           in real_of_int (roundHalfEven (r / q)) * q)"

lemma roundHalfEven_int [simp]: "roundHalfEven (real_of_int z) = z"
  by (simp add: roundHalfEven_def)

lemma floor_log2_eq:
  assumes "2 ^ n \<le> r" and "r < 2 ^ Suc n"
  shows "\<lfloor>log 2 r\<rfloor> = int n"
proof -
  have "0 < (2::real) ^ n"
    by simp
  with assms(1) have r: "0 < r"
    by linarith
  have "real n \<le> log 2 r"
    using assms(1) r by (simp add: le_log_iff powr_realpow)
  moreover have "log 2 r < real n + 1"
    using assms(2) r by (simp add: log_less_iff powr_realpow powr_add)
  ultimately show ?thesis
    by (simp add: floor_eq_iff)
qed

lemma f32_16777217: "f32 16777217 = 16777216"
proof -
  have "\<lfloor>log 2 \<bar>16777217::real\<bar>\<rfloor> = int 24"
    by (rule floor_log2_eq) simp_all
  then show ?thesis
    by (simp add: f32_def roundHalfEven_def Let_def)
qed

lemma f32_16777217_5: "f32 (33554435 / 2) = 16777218"
proof -
  have "\<lfloor>log 2 \<bar>33554435 / 2::real\<bar>\<rfloor> = int 24"
    by (rule floor_log2_eq) simp_all
  then show ?thesis
    by (simp add: f32_def roundHalfEven_def Let_def)
qed


lemma f32_half_int:
  assumes "\<bar>real_of_int m / 2\<bar> \<le> 2 ^ 23"
  shows "f32 (real_of_int m / 2) = real_of_int m / 2"
proof (cases "m = 0")
  case True
  then show ?thesis
    by (simp add: f32_def)
next
  case False
  define r where "r = real_of_int m / 2"
  define e where "e = \<lfloor>log 2 \<bar>r\<bar>\<rfloor>"
  have r0: "r \<noteq> 0" "0 < \<bar>r\<bar>"
    using False by (simp_all add: r_def)
  have "\<bar>r\<bar> \<le> 2 powr 23"
    using assms by (simp add: r_def)
  then have le: "log 2 \<bar>r\<bar> \<le> 23"
    using r0 by (simp add: log_le_iff)
  then have e23: "e \<le> 23"
    unfolding e_def by (simp add: floor_le_iff)
  have "\<exists>z. r / 2 powr (real_of_int (e - 23)) = real_of_int z"
  proof (cases "e = 23")
    case True
    then have "23 \<le> log 2 \<bar>r\<bar>"
      unfolding e_def by linarith
    with le have l23: "log 2 \<bar>r\<bar> = 23"
      by simp
    have "\<bar>r\<bar> = 2 powr (log 2 \<bar>r\<bar>)"
      using r0 by simp
    then have "\<bar>r\<bar> = 8388608"
      unfolding l23 by simp
    then have "r = real_of_int 8388608 \<or> r = real_of_int (- 8388608)"
      by (simp add: abs_if split: if_splits)
    then obtain z where "r = real_of_int z"
      by blast
    with True show ?thesis
      by auto
  next
    case False
    with e23 have "0 \<le> 22 - e"
      by simp
    then obtain k where k: "22 - e = int k"
      using nonneg_int_cases by blast
    have "r / 2 powr (real_of_int (e - 23)) = r * 2 powr (real_of_int (23 - e))"
      by (simp add: powr_minus[symmetric] divide_inverse)
    also have "real_of_int (23 - e) = real (Suc k)"
      using k by simp
    also have "r * 2 powr real (Suc k) = r * 2 ^ Suc k"
      by (subst powr_realpow) simp_all
    also have "\<dots> = real_of_int (m * 2 ^ k)"
      by (simp add: r_def)
    finally show ?thesis
      by blast
  qed
  then obtain z where z: "r / 2 powr (real_of_int (e - 23)) = real_of_int z"
    by blast
  have "f32 r = real_of_int (roundHalfEven (r / 2 powr (real_of_int (e - 23)))) * 2 powr (real_of_int (e - 23))"
    using r0 by (simp add: f32_def e_def Let_def)
  also have "\<dots> = r / 2 powr (real_of_int (e - 23)) * 2 powr (real_of_int (e - 23))"
    unfolding z by simp
  also have "\<dots> = r"
    by simp
  finally show ?thesis
    by (simp add: r_def)
qed


section \<open>Scalar field: downscale\<close>









section \<open>Scalar field: boundary quads (getQuads)\<close>

datatype SurfaceOrientation_t = TO_MIN | TO_MAX

text \<open>Sequencing of calls that may abort: the first abort ends the computation.\<close>

fun bindE :: "error + 'a \<Rightarrow> ('a \<Rightarrow> error + 'b) \<Rightarrow> error + 'b" where
  "bindE (Inl err) f = Inl err"
| "bindE (Inr a) f = f a"

fun concatMapE :: "('a \<Rightarrow> error + 'b list) \<Rightarrow> 'a list \<Rightarrow> error + 'b list" where
  "concatMapE f [] = Inr []"
| "concatMapE f (x # xs) = bindE (f x) (\<lambda>r. bindE (concatMapE f xs) (\<lambda>rs. Inr (r @ rs)))"

text \<open>
  The test of one face in \<^verbatim>\<open>getQuads\<close>, with the evaluation order and the short-circuit
  of \<^verbatim>\<open>&&\<close> and \<^verbatim>\<open>||\<close>:
  \<^verbatim>\<open>(get(p) > threshold && get(n) <= threshold && orientation == TO_MIN)
    || (get(p) < threshold && get(n) >= threshold && orientation == TO_MAX)\<close>.
\<close>

definition crossing ::
  "('v::linorder) GeoVolume_t \<Rightarrow> 'v \<Rightarrow> SurfaceOrientation_t \<Rightarrow> int \<times> int \<times> int \<Rightarrow> int \<times> int \<times> int
     \<Rightarrow> error + bool" where
  "crossing gv threshold orientation p n =
     (case (p, n) of ((i, j, k), (i2, j2, k2)) \<Rightarrow>
        bindE (bindE (GeoVolume_get gv i j k) (\<lambda>a.
                 if a > threshold
                 then bindE (GeoVolume_get gv i2 j2 k2) (\<lambda>b. Inr (b \<le> threshold \<and> orientation = TO_MIN))
                 else Inr False))
          (\<lambda>toMin.
             if toMin then Inr True
             else bindE (GeoVolume_get gv i j k) (\<lambda>a.
                    if a < threshold
                    then bindE (GeoVolume_get gv i2 j2 k2)
                           (\<lambda>b. Inr (b \<ge> threshold \<and> orientation = TO_MAX))
                    else Inr False)))"

text \<open>
  \<^verbatim>\<open>getQuads\<close> visits every voxel in the order of its three nested loops and, for each of
  the six faces in the order left, right, bottom, top, back, front, appends the four
  corners of the face through \<^verbatim>\<open>grid2geo(FPosition_s)\<close> when the face test holds.
\<close>

definition quad ::
  "'v GeoVolume_t \<Rightarrow> bool \<Rightarrow> (real \<times> real \<times> real) list \<Rightarrow> FPosition_s list" where
  "quad gv emit corners =
     (if emit then map (\<lambda>(x, y, z). grid2geoF gv (FPosition_s x y z)) corners else [])"

definition voxelQuads ::
  "('v::linorder) GeoVolume_t \<Rightarrow> 'v \<Rightarrow> SurfaceOrientation_t \<Rightarrow> int \<Rightarrow> int \<Rightarrow> int
     \<Rightarrow> error + FPosition_s list" where
  "voxelQuads gv threshold orientation i j k =
     (let x = real_of_int i; y = real_of_int j; z = real_of_int k; h = 1 / 2 in
      bindE (crossing gv threshold orientation (i, j, k) (i - 1, j, k)) (\<lambda>left.
      bindE (crossing gv threshold orientation (i, j, k) (i + 1, j, k)) (\<lambda>right.
      bindE (crossing gv threshold orientation (i, j, k) (i, j - 1, k)) (\<lambda>bottom.
      bindE (crossing gv threshold orientation (i, j, k) (i, j + 1, k)) (\<lambda>top.
      bindE (crossing gv threshold orientation (i, j, k) (i, j, k - 1)) (\<lambda>back.
      bindE (crossing gv threshold orientation (i, j, k) (i, j, k + 1)) (\<lambda>front.
        Inr (quad gv left
               [(x - h, y - h, z - h), (x - h, y - h, z + h), (x - h, y + h, z + h), (x - h, y + h, z - h)]
           @ quad gv right
               [(x + h, y + h, z - h), (x + h, y + h, z + h), (x + h, y - h, z + h), (x + h, y - h, z - h)]
           @ quad gv bottom
               [(x - h, y - h, z - h), (x + h, y - h, z - h), (x + h, y - h, z + h), (x - h, y - h, z + h)]
           @ quad gv top
               [(x - h, y + h, z + h), (x + h, y + h, z + h), (x + h, y + h, z - h), (x - h, y + h, z - h)]
           @ quad gv back
               [(x - h, y - h, z - h), (x - h, y + h, z - h), (x + h, y + h, z - h), (x + h, y - h, z - h)]
           @ quad gv front
               [(x + h, y - h, z + h), (x + h, y + h, z + h), (x - h, y + h, z + h), (x - h, y - h, z + h)]
            ))))))))"

definition getQuads ::
  "('v::linorder) GeoVolume_t \<Rightarrow> 'v \<Rightarrow> SurfaceOrientation_t \<Rightarrow> error + FPosition_s list" where
  "getQuads gv threshold orientation =
     concatMapE (\<lambda>i.
       concatMapE (\<lambda>j.
         concatMapE (\<lambda>k. voxelQuads gv threshold orientation i j k)
           [0 .. cSizeZ (container gv) - 1])
         [0 .. cSizeY (container gv) - 1])
       [0 .. cSizeX (container gv) - 1]"

lemma concatMapE_Inr:
  "(\<And>x. x \<in> set xs \<Longrightarrow> f x = Inr (g x)) \<Longrightarrow> concatMapE f xs = Inr (concat (map g xs))"
  by (induction xs) auto

lemma concat_single:
  "distinct xs \<Longrightarrow> concat (map (\<lambda>x. if x = a then q else []) xs) = (if a \<in> set xs then q else [])"
  by (induction xs) auto

lemma concat_none: "concat (map (\<lambda>x. []) xs) = []"
  by (induction xs) auto


text \<open>The class invariant that the constructor of \<^verbatim>\<open>GeoVolume_t\<close> establishes.\<close>

definition geoInv :: "'v GeoVolume_t \<Rightarrow> bool" where
  "geoInv gv \<longleftrightarrow>
     voxelSize gv \<noteq> 0
     \<and> fx (upper gv) = fx (lower gv) + real_of_int (cSizeX (container gv)) * voxelSize gv
     \<and> fy (upper gv) = fy (lower gv) + real_of_int (cSizeY (container gv)) * voxelSize gv
     \<and> fz (upper gv) = fz (lower gv) + real_of_int (cSizeZ (container gv)) * voxelSize gv"

text \<open>
  The corner of voxel \<open>(a, b, c)\<close> that is \<open>dx, dy, dz\<close> voxels (0 or 1) up from its lowest
  corner, in world space; and the output of \<^verbatim>\<open>getQuads\<close> cut into quads, four consecutive
  points each.
\<close>

definition corner :: "'v GeoVolume_t \<Rightarrow> int \<Rightarrow> int \<Rightarrow> int \<Rightarrow> int \<Rightarrow> int \<Rightarrow> int \<Rightarrow> FPosition_s" where
  "corner gv a b c dx dy dz =
     FPosition_s (fx (lower gv) + real_of_int (a + dx) * voxelSize gv)
                 (fy (lower gv) + real_of_int (b + dy) * voxelSize gv)
                 (fz (lower gv) + real_of_int (c + dz) * voxelSize gv)"

fun quadsOf :: "'a list \<Rightarrow> 'a list list" where
  "quadsOf (p0 # p1 # p2 # p3 # rest) = [p0, p1, p2, p3] # quadsOf rest"
| "quadsOf rest = []"

definition voxelFaces :: "'v GeoVolume_t \<Rightarrow> int \<Rightarrow> int \<Rightarrow> int \<Rightarrow> FPosition_s list list" where
  "voxelFaces gv a b c =
     [[corner gv a b c 0 0 0, corner gv a b c 0 0 1, corner gv a b c 0 1 1, corner gv a b c 0 1 0],
      [corner gv a b c 1 1 0, corner gv a b c 1 1 1, corner gv a b c 1 0 1, corner gv a b c 1 0 0],
      [corner gv a b c 0 0 0, corner gv a b c 1 0 0, corner gv a b c 1 0 1, corner gv a b c 0 0 1],
      [corner gv a b c 0 1 1, corner gv a b c 1 1 1, corner gv a b c 1 1 0, corner gv a b c 0 1 0],
      [corner gv a b c 0 0 0, corner gv a b c 0 1 0, corner gv a b c 1 1 0, corner gv a b c 1 0 0],
      [corner gv a b c 1 0 1, corner gv a b c 1 1 1, corner gv a b c 0 1 1, corner gv a b c 0 0 1]]"

lemma crossing_TO_MIN:
  assumes "\<And>i j k. GeoVolume_get gv i j k = Inr (val i j k)"
  shows "crossing gv threshold TO_MIN (i, j, k) (i2, j2, k2)
         = Inr (val i j k > threshold \<and> val i2 j2 k2 \<le> threshold)"
  by (simp add: crossing_def assms)

lemma grid2geoF_corner:
  assumes "geoInv gv" and "0 < cSizeX (container gv)" "0 < cSizeY (container gv)"
    "0 < cSizeZ (container gv)"
  shows "grid2geoF gv (FPosition_s (real_of_int a + real_of_int dx - 1 / 2)
                                     (real_of_int b + real_of_int dy - 1 / 2)
                                     (real_of_int c + real_of_int dz - 1 / 2))
         = corner gv a b c dx dy dz"
  using assms by (simp add: grid2geoF_def corner_def geoInv_def)

lemma corner_eq_iff:
  "voxelSize gv \<noteq> 0 \<Longrightarrow>
   corner gv a b c dx dy dz = corner gv a b c ex ey ez \<longleftrightarrow> dx = ex \<and> dy = ey \<and> dz = ez"
  by (auto simp: corner_def)


lemma grid2geoF_inv:
  assumes "geoInv gv" and "0 < cSizeX (container gv)" "0 < cSizeY (container gv)"
    "0 < cSizeZ (container gv)"
  shows "grid2geoF gv (FPosition_s x y z)
         = FPosition_s (fx (lower gv) + (x + 1 / 2) * voxelSize gv)
                       (fy (lower gv) + (y + 1 / 2) * voxelSize gv)
                       (fz (lower gv) + (z + 1 / 2) * voxelSize gv)"
  using assms by (simp add: grid2geoF_def geoInv_def)

lemma voxelQuads_on:
  assumes vals: "\<And>i j k. GeoVolume_get gv i j k = Inr (val i j k)"
    and geo: "geoInv gv"
    and pos: "0 < cSizeX (container gv)" "0 < cSizeY (container gv)" "0 < cSizeZ (container gv)"
    and on: "val a b c > threshold"
    and off: "\<And>i j k. (i, j, k) \<noteq> (a, b, c) \<Longrightarrow> val i j k \<le> threshold"
  shows "voxelQuads gv threshold TO_MIN a b c = Inr (concat (voxelFaces gv a b c))"
proof -
  have n: "val (a - 1) b c \<le> threshold" "val (a + 1) b c \<le> threshold"
    "val a (b - 1) c \<le> threshold" "val a (b + 1) c \<le> threshold"
    "val a b (c - 1) \<le> threshold" "val a b (c + 1) \<le> threshold"
    by (rule off, simp)+
  have cr: "crossing gv threshold TO_MIN (a, b, c) (i2, j2, k2) = Inr (val i2 j2 k2 \<le> threshold)"
    for i2 j2 k2
    using on by (simp add: crossing_TO_MIN[of gv val, OF vals])
  have lo: "(real_of_int a - 1 / 2 + 1 / 2) = real_of_int a"
    "(real_of_int b - 1 / 2 + 1 / 2) = real_of_int b"
    "(real_of_int c - 1 / 2 + 1 / 2) = real_of_int c"
    and hi: "(real_of_int a + 1 / 2 + 1 / 2) = real_of_int a + 1"
    "(real_of_int b + 1 / 2 + 1 / 2) = real_of_int b + 1"
    "(real_of_int c + 1 / 2 + 1 / 2) = real_of_int c + 1"
    by simp_all
  show ?thesis
    unfolding voxelQuads_def Let_def cr
    using n
    by (simp add: quad_def voxelFaces_def corner_def grid2geoF_inv[OF geo pos] lo hi)
qed

lemma voxelQuads_off:
  assumes vals: "\<And>i j k. GeoVolume_get gv i j k = Inr (val i j k)"
    and off: "val i j k \<le> threshold"
  shows "voxelQuads gv threshold TO_MIN i j k = Inr []"
proof -
  have cr: "crossing gv threshold TO_MIN (i, j, k) (i2, j2, k2) = Inr False" for i2 j2 k2
    using off by (simp add: crossing_TO_MIN[of gv val, OF vals] not_less[symmetric])
  show ?thesis
    unfolding voxelQuads_def Let_def cr by (simp add: quad_def)
qed


lemma quadsOf_voxelFaces: "quadsOf (concat (voxelFaces gv a b c)) = voxelFaces gv a b c"
  by (simp add: voxelFaces_def)

lemma voxelFaces_distinct:
  "voxelSize gv \<noteq> 0 \<Longrightarrow> list_all distinct (voxelFaces gv a b c)"
  by (simp add: voxelFaces_def corner_eq_iff)

text \<open>
  Claim C8 (quad extraction boundary count).  Take a scalar field with the constructor's
  invariant, over either container, whose reads return values \<open>val i j k\<close>; let exactly
  one in-range voxel \<open>(a, b, c)\<close> hold a value above the threshold and every other
  coordinate triple, in range or not, a value at or below it.  Then
  \<^verbatim>\<open>getQuads(threshold, TO_MIN)\<close> returns exactly 24 points, which are exactly 6 quads, the
  six faces of that voxel, and the 4 corners of each quad are pairwise distinct.
\<close>

theorem getQuads_single_voxel:
  fixes gv :: "('v::linorder) GeoVolume_t"
  assumes geo: "geoInv gv"
    and rng: "inRange (cSizeX (container gv)) (cSizeY (container gv)) (cSizeZ (container gv)) a b c"
    and vals: "\<forall>i j k. GeoVolume_get gv i j k = Inr (val i j k)"
    and on: "val a b c > threshold"
    and off: "\<forall>i j k. (i, j, k) \<noteq> (a, b, c) \<longrightarrow> val i j k \<le> threshold"
  shows "\<exists>qs. getQuads gv threshold TO_MIN = Inr qs
           \<and> length qs = 24
           \<and> quadsOf qs = voxelFaces gv a b c
           \<and> length (quadsOf qs) = 6
           \<and> list_all distinct (quadsOf qs)"
proof -
  let ?Q = "concat (voxelFaces gv a b c)"
  from rng have r: "0 \<le> a" "a < cSizeX (container gv)" "0 \<le> b" "b < cSizeY (container gv)"
    "0 \<le> c" "c < cSizeZ (container gv)"
    by (auto simp: inRange_def)
  have pos: "0 < cSizeX (container gv)" "0 < cSizeY (container gv)" "0 < cSizeZ (container gv)"
    using r by auto
  have vq: "voxelQuads gv threshold TO_MIN i j k = Inr (if k = c then (if (i, j) = (a, b) then ?Q else []) else [])"
    for i j k
  proof (cases "(i, j, k) = (a, b, c)")
    case True
    then show ?thesis
      using voxelQuads_on[of gv val, OF _ geo pos on] vals off by auto
  next
    case False
    with off have "val i j k \<le> threshold"
      by blast
    from voxelQuads_off[of gv val, OF _ this] vals False show ?thesis
      by auto
  qed
  have kloop: "concatMapE (\<lambda>k. voxelQuads gv threshold TO_MIN i j k) [0 .. cSizeZ (container gv) - 1]
               = Inr (if j = b then (if i = a then ?Q else []) else [])" for i j
  proof -
    have "concatMapE (\<lambda>k. voxelQuads gv threshold TO_MIN i j k) [0 .. cSizeZ (container gv) - 1]
          = Inr (concat (map (\<lambda>k. if k = c then (if (i, j) = (a, b) then ?Q else []) else [])
                  [0 .. cSizeZ (container gv) - 1]))"
      by (rule concatMapE_Inr) (rule vq)
    also have "concat (map (\<lambda>k. if k = c then (if (i, j) = (a, b) then ?Q else []) else [])
                  [0 .. cSizeZ (container gv) - 1]) = (if (i, j) = (a, b) then ?Q else [])"
      using r by (subst concat_single) auto
    finally show ?thesis
      by auto
  qed
  have jloop: "concatMapE (\<lambda>j. concatMapE (\<lambda>k. voxelQuads gv threshold TO_MIN i j k)
                   [0 .. cSizeZ (container gv) - 1]) [0 .. cSizeY (container gv) - 1]
               = Inr (if i = a then ?Q else [])" for i
  proof -
    have "concatMapE (\<lambda>j. concatMapE (\<lambda>k. voxelQuads gv threshold TO_MIN i j k)
                   [0 .. cSizeZ (container gv) - 1]) [0 .. cSizeY (container gv) - 1]
          = Inr (concat (map (\<lambda>j. if j = b then (if i = a then ?Q else []) else [])
                  [0 .. cSizeY (container gv) - 1]))"
      by (rule concatMapE_Inr) (rule kloop)
    also have "concat (map (\<lambda>j. if j = b then (if i = a then ?Q else []) else [])
                  [0 .. cSizeY (container gv) - 1]) = (if i = a then ?Q else [])"
      using r by (subst concat_single) auto
    finally show ?thesis .
  qed
  have "getQuads gv threshold TO_MIN
        = Inr (concat (map (\<lambda>i. if i = a then ?Q else []) [0 .. cSizeX (container gv) - 1]))"
    unfolding getQuads_def by (rule concatMapE_Inr) (rule jloop)
  also have "concat (map (\<lambda>i. if i = a then ?Q else []) [0 .. cSizeX (container gv) - 1]) = ?Q"
    using r by (subst concat_single) auto
  finally have res: "getQuads gv threshold TO_MIN = Inr ?Q" .
  have vs: "voxelSize gv \<noteq> 0"
    using geo by (simp add: geoInv_def)
  have "length ?Q = 24" "length (voxelFaces gv a b c) = 6"
    by (simp_all add: voxelFaces_def)
  with res voxelFaces_distinct[OF vs, of a b c] show ?thesis
    by (simp add: quadsOf_voxelFaces)
qed


text \<open>A field of 2 x 2 x 2 voxels of size 1 with the value 9 at voxel \<open>(1, 0, 1)\<close>.\<close>

definition exampleField :: "int GeoVolume_t" where
  "exampleField =
     \<lparr>container = OctreeC \<lparr>root = Gray (Solid 0) (Solid 0) (Solid 0) (Solid 0)
                                       (Solid 0) (Solid 9) (Solid 0) (Solid 0),
                            rootSize = 2, sizeX = 2, sizeY = 2, sizeZ = 2, initValue = 0\<rparr>,
      lower = FPosition_s 0 0 0, upper = FPosition_s 2 2 2, voxelSize = 1\<rparr>"

theorem getQuads_single_voxel_witness:
  "\<exists>qs. getQuads exampleField 2 TO_MIN = Inr qs
     \<and> length qs = 24
     \<and> quadsOf qs =
         [[FPosition_s 1 0 1, FPosition_s 1 0 2, FPosition_s 1 1 2, FPosition_s 1 1 1],
          [FPosition_s 2 1 1, FPosition_s 2 1 2, FPosition_s 2 0 2, FPosition_s 2 0 1],
          [FPosition_s 1 0 1, FPosition_s 2 0 1, FPosition_s 2 0 2, FPosition_s 1 0 2],
          [FPosition_s 1 1 2, FPosition_s 2 1 2, FPosition_s 2 1 1, FPosition_s 1 1 1],
          [FPosition_s 1 0 1, FPosition_s 1 1 1, FPosition_s 2 1 1, FPosition_s 2 0 1],
          [FPosition_s 2 0 2, FPosition_s 2 1 2, FPosition_s 1 1 2, FPosition_s 1 0 2]]"
proof -
  define val :: "int \<Rightarrow> int \<Rightarrow> int \<Rightarrow> int"
    where "val i j k = (if (i, j, k) = (1, 0, 1) then 9 else 0)" for i j k
  have geo: "geoInv exampleField"
    by (simp add: geoInv_def exampleField_def)
  have rng: "inRange (cSizeX (container exampleField)) (cSizeY (container exampleField))
               (cSizeZ (container exampleField)) 1 0 1"
    by (simp add: inRange_def exampleField_def)
  have vals: "\<forall>i j k. GeoVolume_get exampleField i j k = Inr (val i j k)"
    by (auto simp: GeoVolume_get_def exampleField_def Volume_get_def val_def findOctant_def
        toOctant_def OCT_X_def OCT_Y_def OCT_Z_def drop_bit_eq_div)
  have on: "val 1 0 1 > 2"
    by (simp add: val_def)
  have off: "\<forall>i j k. (i, j, k) \<noteq> (1, 0, 1) \<longrightarrow> val i j k \<le> 2"
    by (simp add: val_def)
  from getQuads_single_voxel[OF geo rng vals on off] obtain qs where
    qs: "getQuads exampleField 2 TO_MIN = Inr qs" "length qs = 24"
      "quadsOf qs = voxelFaces exampleField 1 0 1"
    by blast
  have "voxelFaces exampleField 1 0 1 =
         [[FPosition_s 1 0 1, FPosition_s 1 0 2, FPosition_s 1 1 2, FPosition_s 1 1 1],
          [FPosition_s 2 1 1, FPosition_s 2 1 2, FPosition_s 2 0 2, FPosition_s 2 0 1],
          [FPosition_s 1 0 1, FPosition_s 2 0 1, FPosition_s 2 0 2, FPosition_s 1 0 2],
          [FPosition_s 1 1 2, FPosition_s 2 1 2, FPosition_s 2 1 1, FPosition_s 1 1 1],
          [FPosition_s 1 0 1, FPosition_s 1 1 1, FPosition_s 2 1 1, FPosition_s 2 0 1],
          [FPosition_s 2 0 2, FPosition_s 2 1 2, FPosition_s 1 1 2, FPosition_s 1 0 2]]"
    by (simp add: voxelFaces_def corner_def exampleField_def)
  with qs show ?thesis
    by auto
qed

section \<open>Indexed mesh from a triangle list (isosurfaceAsMesh)\<close>






















section \<open>Directional iterator (Giterator_t)\<close>

text \<open>
  An iterator holds its container, a position and a displacement; \<^verbatim>\<open>operator++\<close> adds the
  displacement, \<^verbatim>\<open>operator==\<close> asserts equal displacements and compares the positions.
\<close>

record 'v Giterator_t =
  it_volume :: "'v Container_t"
  it_pos :: Position_s
  it_diff :: Displacement_s

definition it_next :: "'v Giterator_t \<Rightarrow> 'v Giterator_t" where
  "it_next it = it\<lparr>it_pos := pos_plus (it_pos it) (it_diff it)\<rparr>"

definition it_plus :: "'v Giterator_t \<Rightarrow> int \<Rightarrow> 'v Giterator_t" where
  "it_plus it n = it\<lparr>it_pos := pos_plus (it_pos it) (diff_times (it_diff it) n)\<rparr>"

definition it_eq :: "'v Giterator_t \<Rightarrow> 'v Giterator_t \<Rightarrow> error + bool" where
  "it_eq it s = (if it_diff it \<noteq> it_diff s then Inl AssertionFailed else Inr (it_pos it = it_pos s))"

definition it_neq :: "'v Giterator_t \<Rightarrow> 'v Giterator_t \<Rightarrow> error + bool" where
  "it_neq it s = (case it_eq it s of Inl err \<Rightarrow> Inl err | Inr b \<Rightarrow> Inr (\<not> b))"

text \<open>
  \<^verbatim>\<open>gend\<close> keeps \<^verbatim>\<open>u\<close> and \<^verbatim>\<open>toss\<close> in \<^verbatim>\<open>float\<close>: \<^verbatim>\<open>u\<close> starts as the largest extent, each
  \<^verbatim>\<open>toss\<close> is a \<^verbatim>\<open>double\<close> expression (exact for a unit displacement) stored into a
  \<^verbatim>\<open>float\<close>.  \<^verbatim>\<open>if (toss < u) u = toss\<close> for each clipping plane the displacement points at,
  then the position \<^verbatim>\<open>pos + floor(u) * diff\<close>.  The last expression has integer value and
  is exact in \<^verbatim>\<open>float\<close> up to \<open>2 ^ 24\<close> and in \<^verbatim>\<open>double\<close> beyond.
\<close>

definition clip :: "real \<Rightarrow> real \<Rightarrow> real" where
  "clip u toss = (if toss < u then toss else u)"

definition gend :: "'v Giterator_t \<Rightarrow> 'v Giterator_t" where
  "gend it =
     (let sx = cSizeX (it_volume it); sy = cSizeY (it_volume it); sz = cSizeZ (it_volume it);
          p = it_pos it; d = it_diff it;
          u = f32 (real_of_int (max sx (max sy sz)));
          u = (if difx d > 0
               then clip u (f32 ((real_of_int sx + 1 / 2 - real_of_int (posx p)) / real_of_int (difx d)))
               else u);
          u = (if difx d < 0
               then clip u (f32 ((- (3 / 2) - real_of_int (posx p)) / real_of_int (difx d)))
               else u);
          u = (if dify d > 0
               then clip u (f32 ((real_of_int sy + 1 / 2 - real_of_int (posy p)) / real_of_int (dify d)))
               else u);
          u = (if dify d < 0
               then clip u (f32 ((- (3 / 2) - real_of_int (posy p)) / real_of_int (dify d)))
               else u);
          u = (if difz d > 0
               then clip u (f32 ((real_of_int sz + 1 / 2 - real_of_int (posz p)) / real_of_int (difz d)))
               else u);
          u = (if difz d < 0
               then clip u (f32 ((- (3 / 2) - real_of_int (posz p)) / real_of_int (difz d)))
               else u)
      in it\<lparr>it_pos := Position_s (posx p + \<lfloor>u\<rfloor> * difx d)
                                  (posy p + \<lfloor>u\<rfloor> * dify d)
                                  (posz p + \<lfloor>u\<rfloor> * difz d)\<rparr>)"

definition iteratorPositions :: "'v Container_t \<Rightarrow> Displacement_s \<Rightarrow> Position_s list" where
  "iteratorPositions c d =
     (if difx d \<noteq> 0
      then concat (map (\<lambda>i. map (\<lambda>j. Position_s (if difx d > 0 then 0 else cSizeX c - 1) i j)
                                [0 .. cSizeZ c - 1]) [0 .. cSizeY c - 1])
      else [])
     @ (if dify d \<noteq> 0
        then concat (map (\<lambda>i. map (\<lambda>j. Position_s i (if dify d > 0 then 0 else cSizeY c - 1) j)
                                  [0 .. cSizeZ c - 1]) [0 .. cSizeX c - 1])
        else [])
     @ (if difz d \<noteq> 0
        then concat (map (\<lambda>i. map (\<lambda>j. Position_s i j (if difz d > 0 then 0 else cSizeZ c - 1))
                                  [0 .. cSizeY c - 1]) [0 .. cSizeX c - 1])
        else [])"

text \<open>
  The sweep \<^verbatim>\<open>while (it != send) { ...; ++it; }\<close>, returning the positions it visits.  It
  does not return when \<^verbatim>\<open>send\<close> is not on the line of \<^verbatim>\<open>it\<close>.
\<close>

partial_function (option)
  sweep :: "'v Giterator_t \<Rightarrow> 'v Giterator_t \<Rightarrow> (error + Position_s list) option"
where
  "sweep it send =
     (case it_neq it send of
        Inl err \<Rightarrow> Some (Inl err)
      | Inr differs \<Rightarrow>
          if differs
          then do {
            r \<leftarrow> sweep (it_next it) send;
            case r of
              Inl err \<Rightarrow> Some (Inl err)
            | Inr ps \<Rightarrow> Some (Inr (it_pos it # ps))
          }
          else Some (Inr []))"

lemma sweep_line:
  assumes "d \<noteq> Displacement_s 0 0 0"
  shows "sweep \<lparr>it_volume = c, it_pos = p, it_diff = d\<rparr>
               \<lparr>it_volume = c', it_pos = pos_plus p (diff_times d (int n)), it_diff = d\<rparr>
         = Some (Inr (map (\<lambda>i. pos_plus p (diff_times d (int i))) [0..<n]))"
proof (induction n arbitrary: p)
  case 0
  have "pos_plus p (diff_times d 0) = p"
    by (cases p; cases d) simp
  then show ?case
    by (subst sweep.simps) (simp add: it_neq_def it_eq_def)
next
  case (Suc n)
  have ne: "pos_plus p (diff_times d (int (Suc n))) \<noteq> p"
    using assms by (cases p; cases d) auto
  have sh: "pos_plus (pos_plus p d) (diff_times d (int i)) = pos_plus p (diff_times d (int (Suc i)))" for i
    by (cases p; cases d) (simp add: algebra_simps)
  have p0: "pos_plus p (diff_times d 0) = p"
    by (cases p; cases d) simp
  have "map (\<lambda>i. pos_plus p (diff_times d (int i))) [0..<Suc n]
        = p # map (\<lambda>i. pos_plus (pos_plus p d) (diff_times d (int i))) [0..<n]"
    unfolding sh by (simp add: upt_conv_Cons map_Suc_upt[symmetric] p0 del: upt_Suc)
  then show ?case
    using ne Suc.IH[of "pos_plus p d"] 
    by (subst sweep.simps) (simp add: it_neq_def it_eq_def it_next_def sh del: upt_Suc)
qed


subsection \<open>Line coverage where float is exact\<close>

text \<open>
  \<open>lineOf s d n\<close>: the \<open>n\<close> positions from \<open>s\<close> in steps of \<open>d\<close>.  \<open>extentAlong\<close>: the
  extent of the container along the axis of the displacement.  \<open>allVisited\<close>: the lines of
  extent-count voxels from all the starts of \<^verbatim>\<open>iteratorPositions\<close>, one after the other.
  \<open>sweepsOk\<close>: every sweep from a start to its \<^verbatim>\<open>gend\<close> returns exactly that line.
\<close>

definition lineOf :: "Position_s \<Rightarrow> Displacement_s \<Rightarrow> nat \<Rightarrow> Position_s list" where
  "lineOf s d n = map (\<lambda>t. pos_plus s (diff_times d (int t))) [0..<n]"

lemma f32_int_small: "\<bar>real_of_int z\<bar> \<le> 2 ^ 23 \<Longrightarrow> f32 (real_of_int z) = real_of_int z"
  using f32_half_int[of "2 * z"] by simp

lemma f32_int_half_small:
  "\<bar>real_of_int z + 1 / 2\<bar> \<le> 2 ^ 23 \<Longrightarrow> f32 (real_of_int z + 1 / 2) = real_of_int z + 1 / 2"
  using f32_half_int[of "2 * z + 1"] by (simp add: add_divide_distrib)

lemma floor_clip:
  assumes "n \<le> m" and "0 < n" and "m < 2 ^ 23"
  shows "\<lfloor>clip (f32 (real_of_int m)) (f32 (real_of_int n + 1 / 2))\<rfloor> = n"
proof -
  have a: "f32 (real_of_int m) = real_of_int m"
    using assms by (intro f32_int_small) simp
  have "real_of_int n + 1 / 2 \<le> 2 ^ 23"
  proof -
    have "n + 1 \<le> 2 ^ 23"
      using assms by simp
    then have "real_of_int (n + 1) \<le> real_of_int (2 ^ 23)"
      by (rule of_int_le_iff[THEN iffD2])
    then show ?thesis
      by simp
  qed
  then have b: "f32 (real_of_int n + 1 / 2) = real_of_int n + 1 / 2"
    using assms by (intro f32_int_half_small) simp
  show ?thesis
  proof (cases "real_of_int n + 1 / 2 < real_of_int m")
    case True
    then show ?thesis
      unfolding a b clip_def by (simp add: floor_eq_iff)
  next
    case False
    then have "m \<le> n"
      by linarith
    with assms(1) have "m = n"
      by simp
    with False show ?thesis
      unfolding a b clip_def by simp
  qed
qed


lemma gend_x:
  assumes "0 < cSizeX c" and "cSizeX c < 2 ^ 23" "cSizeY c < 2 ^ 23" "cSizeZ c < 2 ^ 23"
    and "e = 1 \<or> e = - 1"
  shows "gend \<lparr>it_volume = c, it_pos = Position_s (if e > 0 then 0 else cSizeX c - 1) j k,
               it_diff = Displacement_s e 0 0\<rparr>
         = \<lparr>it_volume = c,
            it_pos = Position_s ((if e > 0 then 0 else cSizeX c - 1) + cSizeX c * e) j k,
            it_diff = Displacement_s e 0 0\<rparr>"
proof -
  define m where "m = max (cSizeX c) (max (cSizeY c) (cSizeZ c))"
  have m: "cSizeX c \<le> m" "m < 2 ^ 23"
    using assms by (auto simp: m_def)
  note fl = floor_clip[OF m(1) assms(1) m(2)]
  from assms(5) show ?thesis
  proof
    assume "e = 1"
    then show ?thesis
      using fl by (simp add: gend_def Let_def m_def[symmetric])
  next
    assume "e = - 1"
    then show ?thesis
      using fl by (simp add: gend_def Let_def m_def[symmetric] add.commute)
  qed
qed


lemma distinct_concat_map:
  assumes "distinct xs"
    and "\<And>x. x \<in> set xs \<Longrightarrow> distinct (f x)"
    and "\<And>x y. x \<in> set xs \<Longrightarrow> y \<in> set xs \<Longrightarrow> x \<noteq> y \<Longrightarrow> set (f x) \<inter> set (f y) = {}"
  shows "distinct (concat (map f xs))"
  using assms
proof (induction xs)
  case Nil
  then show ?case
    by simp
next
  case (Cons x xs)
  have "set (f x) \<inter> set (f y) = {}" if "y \<in> set xs" for y
    using Cons.prems(1) Cons.prems(3)[of x y] that by auto
  then show ?case
    using Cons by auto
qed

lemma grid_distinct:
  assumes "distinct as" "distinct bs" "distinct cs"
    and inj: "\<And>a b c a' b' c'. F a b c = F a' b' c' \<Longrightarrow> a = a' \<and> b = b' \<and> c = c'"
  shows "distinct (concat (map (\<lambda>a. concat (map (\<lambda>b. map (F a b) cs) bs)) as))"
proof (rule distinct_concat_map)
  show "distinct as"
    by fact
next
  fix a
  show "distinct (concat (map (\<lambda>b. map (F a b) cs) bs))"
  proof (rule distinct_concat_map)
    show "distinct bs"
      by fact
  next
    fix b
    show "distinct (map (F a b) cs)"
      using assms(3) inj by (auto simp: distinct_map inj_on_def)
  next
    fix b b' :: 'b
    assume "b \<noteq> b'"
    then show "set (map (F a b) cs) \<inter> set (map (F a b') cs) = {}"
      using inj by auto
  qed
next
  fix a a' :: 'a
  assume "a \<noteq> a'"
  then show "set (concat (map (\<lambda>b. map (F a b) cs) bs))
             \<inter> set (concat (map (\<lambda>b. map (F a' b) cs) bs)) = {}"
    using inj by auto
qed

lemma grid2_distinct:
  assumes "distinct as" "distinct bs"
    and inj: "\<And>a b a' b'. G a b = G a' b' \<Longrightarrow> a = a' \<and> b = b'"
  shows "distinct (concat (map (\<lambda>a. map (G a) bs) as))"
proof (rule distinct_concat_map)
  show "distinct as"
    by fact
next
  fix a
  show "distinct (map (G a) bs)"
    using assms(2) inj by (auto simp: distinct_map inj_on_def)
next
  fix a a' :: 'a
  assume "a \<noteq> a'"
  then show "set (map (G a) bs) \<inter> set (map (G a') bs) = {}"
    using inj by auto
qed

lemma grid_set:
  "p \<in> set (concat (map (\<lambda>a. concat (map (\<lambda>b. map (F a b) cs) bs)) as))
   \<longleftrightarrow> (\<exists>a\<in>set as. \<exists>b\<in>set bs. \<exists>c\<in>set cs. p = F a b c)"
  by auto

lemma concat_lines:
  "concat (map L (concat (map (\<lambda>i. map (S i) js) is)))
   = concat (map (\<lambda>i. concat (map (\<lambda>j. L (S i j)) js)) is)"
  by (induction "is") (simp_all add: comp_def)

definition extentAlong :: "'v Container_t \<Rightarrow> Displacement_s \<Rightarrow> int" where
  "extentAlong c d =
     (if difx d \<noteq> 0 then cSizeX c else if dify d \<noteq> 0 then cSizeY c else cSizeZ c)"

definition allVisited :: "'v Container_t \<Rightarrow> Displacement_s \<Rightarrow> Position_s list" where
  "allVisited c d =
     concat (map (\<lambda>s. lineOf s d (nat (extentAlong c d))) (iteratorPositions c d))"

definition sweepsOk :: "'v Container_t \<Rightarrow> Displacement_s \<Rightarrow> bool" where
  "sweepsOk c d =
     list_all (\<lambda>s. sweep \<lparr>it_volume = c, it_pos = s, it_diff = d\<rparr>
                       (gend \<lparr>it_volume = c, it_pos = s, it_diff = d\<rparr>)
                   = Some (Inr (lineOf s d (nat (extentAlong c d)))))
       (iteratorPositions c d)"

lemma coverage_x:
  assumes sx: "0 < cSizeX c" "cSizeX c < 2 ^ 23"
    and sy: "0 < cSizeY c" "cSizeY c < 2 ^ 23"
    and sz: "0 < cSizeZ c" "cSizeZ c < 2 ^ 23"
    and e: "e = 1 \<or> e = - 1"
  shows "sweepsOk c (Displacement_s e 0 0)
         \<and> distinct (iteratorPositions c (Displacement_s e 0 0))
         \<and> distinct (allVisited c (Displacement_s e 0 0))
         \<and> set (allVisited c (Displacement_s e 0 0))
             = {p. inRange (cSizeX c) (cSizeY c) (cSizeZ c) (posx p) (posy p) (posz p)}"
proof -
  let ?d = "Displacement_s e 0 0"
  define x0 where "x0 = (if e > 0 then 0 else cSizeX c - 1)"
  define n where "n = nat (cSizeX c)"
  have e0: "e \<noteq> 0"
    using e by auto
  have starts: "iteratorPositions c ?d
      = concat (map (\<lambda>i. map (\<lambda>j. Position_s x0 i j) [0 .. cSizeZ c - 1]) [0 .. cSizeY c - 1])"
    using e0 by (simp add: iteratorPositions_def x0_def)
  have ext: "nat (extentAlong c ?d) = n"
    using e0 by (simp add: extentAlong_def n_def)
  have line: "lineOf (Position_s x0 i j) ?d n = map (\<lambda>t. Position_s (x0 + e * int t) i j) [0..<n]"
    for i j
    by (simp add: lineOf_def mult.commute)
  have sw: "sweep \<lparr>it_volume = c, it_pos = Position_s x0 i j, it_diff = ?d\<rparr>
                 (gend \<lparr>it_volume = c, it_pos = Position_s x0 i j, it_diff = ?d\<rparr>)
            = Some (Inr (lineOf (Position_s x0 i j) ?d n))" for i j
  proof -
    have "gend \<lparr>it_volume = c, it_pos = Position_s x0 i j, it_diff = ?d\<rparr>
          = \<lparr>it_volume = c, it_pos = pos_plus (Position_s x0 i j) (diff_times ?d (int n)),
             it_diff = ?d\<rparr>"
      unfolding x0_def using gend_x[OF sx sy(2) sz(2) e, of i j] sx
      by (simp add: n_def mult.commute)
    then show ?thesis
      unfolding lineOf_def using e0 by (simp only: sweep_line Displacement_s.inject simp_thms)
  qed
  have ok: "sweepsOk c ?d"
    unfolding sweepsOk_def ext starts by (simp add: list_all_iff sw)
  have ds: "distinct (iteratorPositions c ?d)"
    unfolding starts by (rule grid2_distinct) auto
  have av: "allVisited c ?d
      = concat (map (\<lambda>i. concat (map (\<lambda>j. map (\<lambda>t. Position_s (x0 + e * int t) i j) [0..<n])
                  [0 .. cSizeZ c - 1])) [0 .. cSizeY c - 1])"
    unfolding allVisited_def ext starts concat_lines line ..
  have da: "distinct (allVisited c ?d)"
    unfolding av using e0 by (intro grid_distinct) auto
  have "p \<in> set (allVisited c ?d)
        \<longleftrightarrow> inRange (cSizeX c) (cSizeY c) (cSizeZ c) (posx p) (posy p) (posz p)" for p
  proof (cases p)
    case (Position_s x y z)
    have "(\<exists>t<n. x = x0 + e * int t) \<longleftrightarrow> 0 \<le> x \<and> x < cSizeX c"
    proof
      assume "\<exists>t<n. x = x0 + e * int t"
      then show "0 \<le> x \<and> x < cSizeX c"
        using e sx by (auto simp: x0_def n_def)
    next
      assume r: "0 \<le> x \<and> x < cSizeX c"
      show "\<exists>t<n. x = x0 + e * int t"
      proof (cases "e = 1")
        case True
        with r show ?thesis
          by (intro exI[of _ "nat x"]) (auto simp: x0_def n_def)
      next
        case False
        with e have "e = - 1"
          by simp
        with r show ?thesis
          by (intro exI[of _ "nat (cSizeX c - 1 - x)"]) (auto simp: x0_def n_def)
      qed
    qed
    moreover have "(\<exists>i\<in>set [0 .. cSizeY c - 1]. \<exists>j\<in>set [0 .. cSizeZ c - 1]. \<exists>t\<in>set [0..<n].
                   Position_s x y z = Position_s (x0 + e * int t) i j)
               \<longleftrightarrow> (0 \<le> y \<and> y < cSizeY c) \<and> (0 \<le> z \<and> z < cSizeZ c)
                    \<and> (\<exists>t<n. x = x0 + e * int t)"
      by auto
    ultimately have "(\<exists>i\<in>set [0 .. cSizeY c - 1]. \<exists>j\<in>set [0 .. cSizeZ c - 1]. \<exists>t\<in>set [0..<n].
                   Position_s x y z = Position_s (x0 + e * int t) i j)
               \<longleftrightarrow> inRange (cSizeX c) (cSizeY c) (cSizeZ c) x y z"
      unfolding inRange_def by (simp only:) auto
    then show ?thesis
      unfolding av Position_s grid_set by simp
  qed
  then have "set (allVisited c ?d)
             = {p. inRange (cSizeX c) (cSizeY c) (cSizeZ c) (posx p) (posy p) (posz p)}"
    by auto
  with ok ds da show ?thesis
    by simp
qed


lemma gend_y:
  assumes "0 < cSizeY c" and "cSizeX c < 2 ^ 23" "cSizeY c < 2 ^ 23" "cSizeZ c < 2 ^ 23"
    and "e = 1 \<or> e = - 1"
  shows "gend \<lparr>it_volume = c, it_pos = Position_s i (if e > 0 then 0 else cSizeY c - 1) k,
               it_diff = Displacement_s 0 e 0\<rparr>
         = \<lparr>it_volume = c,
            it_pos = Position_s i ((if e > 0 then 0 else cSizeY c - 1) + cSizeY c * e) k,
            it_diff = Displacement_s 0 e 0\<rparr>"
proof -
  define m where "m = max (cSizeX c) (max (cSizeY c) (cSizeZ c))"
  have m: "cSizeY c \<le> m" "m < 2 ^ 23"
    using assms by (auto simp: m_def)
  note fl = floor_clip[OF m(1) assms(1) m(2)]
  from assms(5) show ?thesis
  proof
    assume "e = 1"
    then show ?thesis
      using fl by (simp add: gend_def Let_def m_def[symmetric])
  next
    assume "e = - 1"
    then show ?thesis
      using fl by (simp add: gend_def Let_def m_def[symmetric] add.commute)
  qed
qed

lemma gend_z:
  assumes "0 < cSizeZ c" and "cSizeX c < 2 ^ 23" "cSizeY c < 2 ^ 23" "cSizeZ c < 2 ^ 23"
    and "e = 1 \<or> e = - 1"
  shows "gend \<lparr>it_volume = c, it_pos = Position_s i j (if e > 0 then 0 else cSizeZ c - 1),
               it_diff = Displacement_s 0 0 e\<rparr>
         = \<lparr>it_volume = c,
            it_pos = Position_s i j ((if e > 0 then 0 else cSizeZ c - 1) + cSizeZ c * e),
            it_diff = Displacement_s 0 0 e\<rparr>"
proof -
  define m where "m = max (cSizeX c) (max (cSizeY c) (cSizeZ c))"
  have m: "cSizeZ c \<le> m" "m < 2 ^ 23"
    using assms by (auto simp: m_def)
  note fl = floor_clip[OF m(1) assms(1) m(2)]
  from assms(5) show ?thesis
  proof
    assume "e = 1"
    then show ?thesis
      using fl by (simp add: gend_def Let_def m_def[symmetric])
  next
    assume "e = - 1"
    then show ?thesis
      using fl by (simp add: gend_def Let_def m_def[symmetric] add.commute)
  qed
qed

lemma axis_points:
  assumes "e = 1 \<or> e = - 1" and "0 < sz"
  shows "(\<exists>t<nat sz. x = (if e > 0 then 0 else sz - 1) + e * int t) \<longleftrightarrow> 0 \<le> x \<and> x < sz"
proof
  assume "\<exists>t<nat sz. x = (if e > 0 then 0 else sz - 1) + e * int t"
  then show "0 \<le> x \<and> x < sz"
    using assms by auto
next
  assume r: "0 \<le> x \<and> x < sz"
  show "\<exists>t<nat sz. x = (if e > 0 then 0 else sz - 1) + e * int t"
  proof (cases "e = 1")
    case True
    with r show ?thesis
      by (intro exI[of _ "nat x"]) auto
  next
    case False
    with assms have "e = - 1"
      by simp
    with r show ?thesis
      by (intro exI[of _ "nat (sz - 1 - x)"]) auto
  qed
qed

lemma coverage_y:
  assumes sx: "0 < cSizeX c" "cSizeX c < 2 ^ 23"
    and sy: "0 < cSizeY c" "cSizeY c < 2 ^ 23"
    and sz: "0 < cSizeZ c" "cSizeZ c < 2 ^ 23"
    and e: "e = 1 \<or> e = - 1"
  shows "sweepsOk c (Displacement_s 0 e 0)
         \<and> distinct (iteratorPositions c (Displacement_s 0 e 0))
         \<and> distinct (allVisited c (Displacement_s 0 e 0))
         \<and> set (allVisited c (Displacement_s 0 e 0))
             = {p. inRange (cSizeX c) (cSizeY c) (cSizeZ c) (posx p) (posy p) (posz p)}"
proof -
  let ?d = "Displacement_s 0 e 0"
  define y0 where "y0 = (if e > 0 then 0 else cSizeY c - 1)"
  define n where "n = nat (cSizeY c)"
  have e0: "e \<noteq> 0"
    using e by auto
  have starts: "iteratorPositions c ?d
      = concat (map (\<lambda>i. map (\<lambda>j. Position_s i y0 j) [0 .. cSizeZ c - 1]) [0 .. cSizeX c - 1])"
    using e0 by (simp add: iteratorPositions_def y0_def)
  have ext: "nat (extentAlong c ?d) = n"
    using e0 by (simp add: extentAlong_def n_def)
  have line: "lineOf (Position_s i y0 j) ?d n = map (\<lambda>t. Position_s i (y0 + e * int t) j) [0..<n]"
    for i j
    by (simp add: lineOf_def mult.commute)
  have sw: "sweep \<lparr>it_volume = c, it_pos = Position_s i y0 j, it_diff = ?d\<rparr>
                 (gend \<lparr>it_volume = c, it_pos = Position_s i y0 j, it_diff = ?d\<rparr>)
            = Some (Inr (lineOf (Position_s i y0 j) ?d n))" for i j
  proof -
    have "gend \<lparr>it_volume = c, it_pos = Position_s i y0 j, it_diff = ?d\<rparr>
          = \<lparr>it_volume = c, it_pos = pos_plus (Position_s i y0 j) (diff_times ?d (int n)),
             it_diff = ?d\<rparr>"
      unfolding y0_def using gend_y[OF sy(1) sx(2) sy(2) sz(2) e, of i j] sy
      by (simp add: n_def mult.commute)
    then show ?thesis
      unfolding lineOf_def using e0 by (simp only: sweep_line Displacement_s.inject simp_thms)
  qed
  have ok: "sweepsOk c ?d"
    unfolding sweepsOk_def ext starts by (simp add: list_all_iff sw)
  have ds: "distinct (iteratorPositions c ?d)"
    unfolding starts by (rule grid2_distinct) auto
  have av: "allVisited c ?d
      = concat (map (\<lambda>i. concat (map (\<lambda>j. map (\<lambda>t. Position_s i (y0 + e * int t) j) [0..<n])
                  [0 .. cSizeZ c - 1])) [0 .. cSizeX c - 1])"
    unfolding allVisited_def ext starts concat_lines line ..
  have da: "distinct (allVisited c ?d)"
    unfolding av using e0 by (intro grid_distinct) auto
  have "p \<in> set (allVisited c ?d)
        \<longleftrightarrow> inRange (cSizeX c) (cSizeY c) (cSizeZ c) (posx p) (posy p) (posz p)" for p
  proof (cases p)
    case (Position_s x y z)
    have "(\<exists>t<n. y = y0 + e * int t) \<longleftrightarrow> 0 \<le> y \<and> y < cSizeY c"
      unfolding y0_def n_def by (rule axis_points[OF e sy(1)])
    moreover have "(\<exists>i\<in>set [0 .. cSizeX c - 1]. \<exists>j\<in>set [0 .. cSizeZ c - 1]. \<exists>t\<in>set [0..<n].
                   Position_s x y z = Position_s i (y0 + e * int t) j)
               \<longleftrightarrow> (0 \<le> x \<and> x < cSizeX c) \<and> (0 \<le> z \<and> z < cSizeZ c)
                    \<and> (\<exists>t<n. y = y0 + e * int t)"
      by auto
    ultimately have "(\<exists>i\<in>set [0 .. cSizeX c - 1]. \<exists>j\<in>set [0 .. cSizeZ c - 1]. \<exists>t\<in>set [0..<n].
                   Position_s x y z = Position_s i (y0 + e * int t) j)
               \<longleftrightarrow> inRange (cSizeX c) (cSizeY c) (cSizeZ c) x y z"
      unfolding inRange_def by (simp only:) auto
    then show ?thesis
      unfolding av Position_s grid_set by simp
  qed
  then have "set (allVisited c ?d)
             = {p. inRange (cSizeX c) (cSizeY c) (cSizeZ c) (posx p) (posy p) (posz p)}"
    by auto
  with ok ds da show ?thesis
    by simp
qed

lemma coverage_z:
  assumes sx: "0 < cSizeX c" "cSizeX c < 2 ^ 23"
    and sy: "0 < cSizeY c" "cSizeY c < 2 ^ 23"
    and sz: "0 < cSizeZ c" "cSizeZ c < 2 ^ 23"
    and e: "e = 1 \<or> e = - 1"
  shows "sweepsOk c (Displacement_s 0 0 e)
         \<and> distinct (iteratorPositions c (Displacement_s 0 0 e))
         \<and> distinct (allVisited c (Displacement_s 0 0 e))
         \<and> set (allVisited c (Displacement_s 0 0 e))
             = {p. inRange (cSizeX c) (cSizeY c) (cSizeZ c) (posx p) (posy p) (posz p)}"
proof -
  let ?d = "Displacement_s 0 0 e"
  define z0 where "z0 = (if e > 0 then 0 else cSizeZ c - 1)"
  define n where "n = nat (cSizeZ c)"
  have e0: "e \<noteq> 0"
    using e by auto
  have starts: "iteratorPositions c ?d
      = concat (map (\<lambda>i. map (\<lambda>j. Position_s i j z0) [0 .. cSizeY c - 1]) [0 .. cSizeX c - 1])"
    using e0 by (simp add: iteratorPositions_def z0_def)
  have ext: "nat (extentAlong c ?d) = n"
    using e0 by (simp add: extentAlong_def n_def)
  have line: "lineOf (Position_s i j z0) ?d n = map (\<lambda>t. Position_s i j (z0 + e * int t)) [0..<n]"
    for i j
    by (simp add: lineOf_def mult.commute)
  have sw: "sweep \<lparr>it_volume = c, it_pos = Position_s i j z0, it_diff = ?d\<rparr>
                 (gend \<lparr>it_volume = c, it_pos = Position_s i j z0, it_diff = ?d\<rparr>)
            = Some (Inr (lineOf (Position_s i j z0) ?d n))" for i j
  proof -
    have "gend \<lparr>it_volume = c, it_pos = Position_s i j z0, it_diff = ?d\<rparr>
          = \<lparr>it_volume = c, it_pos = pos_plus (Position_s i j z0) (diff_times ?d (int n)),
             it_diff = ?d\<rparr>"
      unfolding z0_def using gend_z[OF sz(1) sx(2) sy(2) sz(2) e, of i j] sz
      by (simp add: n_def mult.commute)
    then show ?thesis
      unfolding lineOf_def using e0 by (simp only: sweep_line Displacement_s.inject simp_thms)
  qed
  have ok: "sweepsOk c ?d"
    unfolding sweepsOk_def ext starts by (simp add: list_all_iff sw)
  have ds: "distinct (iteratorPositions c ?d)"
    unfolding starts by (rule grid2_distinct) auto
  have av: "allVisited c ?d
      = concat (map (\<lambda>i. concat (map (\<lambda>j. map (\<lambda>t. Position_s i j (z0 + e * int t)) [0..<n])
                  [0 .. cSizeY c - 1])) [0 .. cSizeX c - 1])"
    unfolding allVisited_def ext starts concat_lines line ..
  have da: "distinct (allVisited c ?d)"
    unfolding av using e0 by (intro grid_distinct) auto
  have "p \<in> set (allVisited c ?d)
        \<longleftrightarrow> inRange (cSizeX c) (cSizeY c) (cSizeZ c) (posx p) (posy p) (posz p)" for p
  proof (cases p)
    case (Position_s x y z)
    have "(\<exists>t<n. z = z0 + e * int t) \<longleftrightarrow> 0 \<le> z \<and> z < cSizeZ c"
      unfolding z0_def n_def by (rule axis_points[OF e sz(1)])
    moreover have "(\<exists>i\<in>set [0 .. cSizeX c - 1]. \<exists>j\<in>set [0 .. cSizeY c - 1]. \<exists>t\<in>set [0..<n].
                   Position_s x y z = Position_s i j (z0 + e * int t))
               \<longleftrightarrow> (0 \<le> x \<and> x < cSizeX c) \<and> (0 \<le> y \<and> y < cSizeY c)
                    \<and> (\<exists>t<n. z = z0 + e * int t)"
      by auto
    ultimately have "(\<exists>i\<in>set [0 .. cSizeX c - 1]. \<exists>j\<in>set [0 .. cSizeY c - 1]. \<exists>t\<in>set [0..<n].
                   Position_s x y z = Position_s i j (z0 + e * int t))
               \<longleftrightarrow> inRange (cSizeX c) (cSizeY c) (cSizeZ c) x y z"
      unfolding inRange_def by (simp only:) auto
    then show ?thesis
      unfolding av Position_s grid_set by simp
  qed
  then have "set (allVisited c ?d)
             = {p. inRange (cSizeX c) (cSizeY c) (cSizeZ c) (posx p) (posy p) (posz p)}"
    by auto
  with ok ds da show ?thesis
    by simp
qed

text \<open>
  Within the range where \<^verbatim>\<open>float\<close> holds every value of \<^verbatim>\<open>gend\<close> exactly (extents below
  \<open>2 ^ 23\<close>) the lines do cover the volume: for positive extents and a unit displacement
  along one axis, every sweep from a start of \<^verbatim>\<open>iteratorPositions\<close> to its \<^verbatim>\<open>gend\<close>
  returns the line of extent-count voxels from that start, the starts are pairwise
  distinct, and the lines together hold every in-range voxel once and nothing else.
\<close>

lemma line_coverage_exact_range:
  assumes "0 < cSizeX c" "cSizeX c < 2 ^ 23"
    and "0 < cSizeY c" "cSizeY c < 2 ^ 23"
    and "0 < cSizeZ c" "cSizeZ c < 2 ^ 23"
    and "e = 1 \<or> e = - 1"
    and "d = Displacement_s e 0 0 \<or> d = Displacement_s 0 e 0 \<or> d = Displacement_s 0 0 e"
  shows "sweepsOk c d
         \<and> distinct (iteratorPositions c d)
         \<and> distinct (allVisited c d)
         \<and> set (allVisited c d)
             = {p. inRange (cSizeX c) (cSizeY c) (cSizeZ c) (posx p) (posy p) (posz p)}"
  using assms(8) coverage_x[OF assms(1-7)] coverage_y[OF assms(1-7)] coverage_z[OF assms(1-7)]
  by (elim disjE) simp_all

subsection \<open>Line coverage beyond the exact range\<close>

text \<open>
  Claim C5 (line coverage) at a container of 16777217 x 1 x 1 voxels and the displacement
  \<open>(1, 0, 0)\<close>.  The only start is \<open>(0, 0, 0)\<close>.  In \<^verbatim>\<open>gend\<close>, \<^verbatim>\<open>float u = 16777217\<close> is
  stored as 16777216 and \<^verbatim>\<open>toss = 16777217.5\<close> as 16777218, so the end position is
  \<open>(16777216, 0, 0)\<close>, an in-range voxel: the sweep visits the positions with
  \<open>x = 0 .. 16777215\<close> and never the last voxel of the line.
\<close>

theorem gend_float_precision:
  "iteratorPositions (Container_new KVolume_t 16777217 1 1 (0::int)) (Displacement_s 1 0 0)
     = [Position_s 0 0 0]
   \<and> it_pos (gend \<lparr>it_volume = Container_new KVolume_t 16777217 1 1 (0::int),
                     it_pos = Position_s 0 0 0, it_diff = Displacement_s 1 0 0\<rparr>)
     = Position_s 16777216 0 0
   \<and> inRange 16777217 1 1 16777216 0 0
   \<and> sweep \<lparr>it_volume = Container_new KVolume_t 16777217 1 1 (0::int),
             it_pos = Position_s 0 0 0, it_diff = Displacement_s 1 0 0\<rparr>
           (gend \<lparr>it_volume = Container_new KVolume_t 16777217 1 1 (0::int),
                  it_pos = Position_s 0 0 0, it_diff = Displacement_s 1 0 0\<rparr>)
     = Some (Inr (map (\<lambda>i. Position_s (int i) 0 0) [0..<16777216]))
   \<and> Position_s 16777216 0 0 \<notin> set (map (\<lambda>i. Position_s (int i) 0 0) [0..<16777216])"
proof -
  let ?c = "Container_new KVolume_t 16777217 1 1 (0::int)"
  let ?it = "\<lparr>it_volume = ?c, it_pos = Position_s 0 0 0, it_diff = Displacement_s 1 0 0\<rparr>"
  define n :: nat where "n = 16777216"
  have starts: "iteratorPositions ?c (Displacement_s 1 0 0) = [Position_s 0 0 0]"
    by (simp add: iteratorPositions_def)
  have g: "gend ?it = \<lparr>it_volume = ?c, it_pos = Position_s 16777216 0 0,
                         it_diff = Displacement_s 1 0 0\<rparr>"
    by (simp add: gend_def Let_def clip_def f32_16777217 f32_16777217_5)
  have e: "Position_s 16777216 0 0 = pos_plus (Position_s 0 0 0) (diff_times (Displacement_s 1 0 0) (int n))"
    by (simp add: n_def)
  have f: "(\<lambda>i. pos_plus (Position_s 0 0 0) (diff_times (Displacement_s 1 0 0) (int i)))
           = (\<lambda>i. Position_s (int i) 0 0)"
    by (rule ext) simp
  have "sweep ?it (gend ?it) = Some (Inr (map (\<lambda>i. Position_s (int i) 0 0) [0..<n]))"
    unfolding g e f[symmetric] by (rule sweep_line) simp
  moreover have "Position_s 16777216 0 0 \<notin> set (map (\<lambda>i. Position_s (int i) 0 0) [0..<n])"
    by (auto simp: n_def)
  moreover have "inRange 16777217 1 1 16777216 0 0"
    by (simp add: inRange_def)
  ultimately show ?thesis
    using starts g unfolding n_def by simp
qed

section \<open>Distance map (DistanceMap_t)\<close>

text \<open>
  \<^verbatim>\<open>DistVector_s\<close> holds three \<^verbatim>\<open>float\<close> offsets, modelled over the reals (exact on the
  small integers of the theorem below); \<^verbatim>\<open>min\<close> keeps its first argument unless the
  second has a strictly smaller squared norm.
\<close>

datatype DistVector_s = DistVector_s (distX: real) (distY: real) (distZ: real)

fun dv_plus :: "DistVector_s \<Rightarrow> DistVector_s \<Rightarrow> DistVector_s" where
  "dv_plus (DistVector_s x y z) (DistVector_s x2 y2 z2) = DistVector_s (x + x2) (y + y2) (z + z2)"

definition sqr :: "real \<Rightarrow> real" where
  "sqr r = r * r"

definition dv_min :: "DistVector_s \<Rightarrow> DistVector_s \<Rightarrow> DistVector_s" where
  "dv_min op1 op2 =
     (if sqr (distX op1) + sqr (distY op1) + sqr (distZ op1)
         \<le> sqr (distX op2) + sqr (distY op2) + sqr (distZ op2)
      then op1 else op2)"

datatype Scandir_t = ASC | DESC

text \<open>
  One propagation step, \<^verbatim>\<open>dvField.set(p, min(dvField.get(p), dvField.get(n) + step))\<close>,
  and the scans built from it.  \<^verbatim>\<open>scanXLine\<close> is called for the rows \<open>j = 1 .. sizeY-1\<close>
  (ascending) and \<open>j = sizeY-2 .. 0\<close> (descending), \<^verbatim>\<open>scanXYPlane\<close> for the planes
  \<open>k = 1 .. sizeZ-1\<close> and \<open>k = sizeZ-2 .. 0\<close>.
\<close>

definition propagate ::
  "int \<times> int \<times> int \<Rightarrow> int \<times> int \<times> int \<Rightarrow> DistVector_s \<Rightarrow> DistVector_s Volume_t
     \<Rightarrow> DistVector_s Volume_t outcome" where
  "propagate p n step dvField =
     (case (p, n) of ((i, j, k), (i2, j2, k2)) \<Rightarrow>
        bindO (Some (Volume_get dvField i j k)) (\<lambda>cur.
        bindO (Some (Volume_get dvField i2 j2 k2)) (\<lambda>nb.
          Volume_set dvField i j k (dv_min cur (dv_plus nb step)))))"

definition scanXLine ::
  "int \<Rightarrow> int \<Rightarrow> Scandir_t \<Rightarrow> DistVector_s Volume_t \<Rightarrow> DistVector_s Volume_t outcome" where
  "scanXLine j k scandir dvField =
     bindO (forO [0 .. sizeX dvField - 1]
              (\<lambda>i. if scandir = ASC
                    then propagate (i, j, k) (i, j - 1, k) (DistVector_s 0 1 0)
                    else propagate (i, j, k) (i, j + 1, k) (DistVector_s 0 1 0))
              dvField) (\<lambda>dvField.
     bindO (forO [1 .. sizeX dvField - 1]
              (\<lambda>i. propagate (i, j, k) (i - 1, j, k) (DistVector_s 1 0 0))
              dvField) (\<lambda>dvField.
     forO (rev [0 .. sizeX dvField - 2])
       (\<lambda>i. propagate (i, j, k) (i + 1, j, k) (DistVector_s 1 0 0))
       dvField))"

definition scanXYPlane ::
  "int \<Rightarrow> Scandir_t \<Rightarrow> DistVector_s Volume_t \<Rightarrow> DistVector_s Volume_t outcome" where
  "scanXYPlane k scandir dvField =
     bindO (forO [0 .. sizeX dvField - 1]
              (\<lambda>i. forO [0 .. sizeY dvField - 1]
                 (\<lambda>j. if scandir = ASC
                       then propagate (i, j, k) (i, j, k - 1) (DistVector_s 0 0 1)
                       else propagate (i, j, k) (i, j, k + 1) (DistVector_s 0 0 1)))
              dvField) (\<lambda>dvField.
     bindO (forO [1 .. sizeY dvField - 1] (\<lambda>j. scanXLine j k ASC) dvField) (\<lambda>dvField.
     forO (rev [0 .. sizeY dvField - 2]) (\<lambda>j. scanXLine j k DESC) dvField))"

definition markFeatures ::
  "bool GeoVolume_t \<Rightarrow> DistVector_s Volume_t \<Rightarrow> DistVector_s Volume_t outcome" where
  "markFeatures bitfield dvField =
     forO [0 .. sizeX dvField - 1] (\<lambda>i.
       forO [0 .. sizeY dvField - 1] (\<lambda>j.
         forO [0 .. sizeZ dvField - 1] (\<lambda>k dv.
           bindO (Some (GeoVolume_get bitfield i j k)) (\<lambda>b.
             if b then Volume_set dv i j k (DistVector_s 0 0 0) else Some (Inr dv)))))
       dvField"

definition storeDistances ::
  "DistVector_s Volume_t \<Rightarrow> real \<Rightarrow> real GeoVolume_t \<Rightarrow> real GeoVolume_t outcome" where
  "storeDistances dvField initVal dmap =
     forO [0 .. sizeX dvField - 1] (\<lambda>i.
       forO [0 .. sizeY dvField - 1] (\<lambda>j.
         forO [0 .. sizeZ dvField - 1] (\<lambda>k dm.
           bindO (Some (Volume_get dvField i j k)) (\<lambda>dv.
             let dist = voxelSize dm * sqrt (sqr (distX dv) + sqr (distY dv) + sqr (distZ dv))
             in if dist < initVal then GeoVolume_set dm i j k dist else Some (Inr dm)))))
       dmap"

definition DistanceMap_t_new :: "bool GeoVolume_t \<Rightarrow> real \<Rightarrow> real GeoVolume_t outcome" where
  "DistanceMap_t_new bitfield initVal =
     (let this = GeoVolume_t_new KVolume_t (lower bitfield) (upper bitfield) (voxelSize bitfield)
                   initVal;
          infty = initVal / voxelSize this;
          dvField = Volume_t_new (cSizeX (container this)) (cSizeY (container this))
                      (cSizeZ (container this)) (DistVector_s infty infty infty)
      in bindO (markFeatures bitfield dvField) (\<lambda>dvField.
         bindO (forO [1 .. sizeZ dvField - 1] (\<lambda>k. scanXYPlane k ASC) dvField) (\<lambda>dvField.
         bindO (forO (rev [0 .. sizeZ dvField - 2]) (\<lambda>k. scanXYPlane k DESC) dvField) (\<lambda>dvField.
         storeDistances dvField initVal this))))"

lemma rootSizeOf_2: "rootSizeOf 2 = 2"
  by (simp add: rootSizeOf_def)

lemma rootSizeOf_1: "rootSizeOf 1 = 1"
  by (simp add: rootSizeOf_def)

lemma upto_0_1: "[0 .. 1::int] = [0, 1]"
  by (simp add: upto.simps)

lemma sqrt_30000: "\<not> sqrt 30000 < 100"
proof -
  have "sqrt (100 * 100) \<le> sqrt 30000"
    by (rule real_sqrt_le_mono) simp
  then show ?thesis
    by simp
qed

text \<open>
  A bitfield of 2 x 1 x 1 voxels of size 1, true at the origin only: the field built by
  the constructor for the corners \<open>(0,0,0)\<close> and \<open>(2,1,1)\<close>, after \<^verbatim>\<open>set(0,0,0,true)\<close>.
\<close>

definition lineBitfield :: "bool GeoVolume_t" where
  "lineBitfield =
     \<lparr>container = OctreeC \<lparr>root = Gray (Solid True) (Solid False) (Solid False) (Solid False)
                                       (Solid False) (Solid False) (Solid False) (Solid False),
                            rootSize = 2, sizeX = 2, sizeY = 1, sizeZ = 1, initValue = False\<rparr>,
      lower = FPosition_s 0 0 0, upper = FPosition_s 2 1 1, voxelSize = 1\<rparr>"

lemma lineBitfield_built:
  "GeoVolume_set (GeoVolume_t_new KVolume_t (FPosition_s 0 0 0) (FPosition_s 2 1 1) 1 False)
     0 0 0 True = Some (Inr lineBitfield)"
  by (simp add: GeoVolume_set_def GeoVolume_t_new_def Volume_t_new_def Volume_t_init_def
      rootSizeOf_2 Volume_set_def Node_set.simps findOctant_def toOctant_def
      OCT_X_def OCT_Y_def OCT_Z_def collapse_def fullMatch_def drop_bit_eq_div lineBitfield_def)


text \<open>
  Claim C7 (distance transform on a single feature) at that bitfield, with
  \<^verbatim>\<open>initValue = 100\<close>.  With \<open>sizeZ = 1\<close> neither loop over the planes runs, so no vector
  is propagated: the distance map holds 0 at the origin and \<^verbatim>\<open>initValue\<close> at voxel
  \<open>(1, 0, 0)\<close>, whose distance to the origin is 1.
\<close>

definition lineDistanceMap :: "real GeoVolume_t" where
  "lineDistanceMap =
     \<lparr>container = OctreeC \<lparr>root = Gray (Solid 0) (Solid 100) (Solid 100) (Solid 100)
                                       (Solid 100) (Solid 100) (Solid 100) (Solid 100),
                            rootSize = 2, sizeX = 2, sizeY = 1, sizeZ = 1, initValue = 100\<rparr>,
      lower = FPosition_s 0 0 0, upper = FPosition_s 2 1 1, voxelSize = 1\<rparr>"

theorem distance_map_flat_grid:
  "GeoVolume_set (GeoVolume_t_new KVolume_t (FPosition_s 0 0 0) (FPosition_s 2 1 1) 1 False)
     0 0 0 True = Some (Inr lineBitfield)
   \<and> DistanceMap_t_new lineBitfield 100 = Some (Inr lineDistanceMap)
   \<and> GeoVolume_get lineDistanceMap 0 0 0 = Inr 0
   \<and> GeoVolume_get lineDistanceMap 1 0 0 = Inr 100
   \<and> voxelSize lineDistanceMap * sqrt (1 ^ 2 + 0 ^ 2 + 0 ^ 2) = 1"
proof -
  have "DistanceMap_t_new lineBitfield 100 = Some (Inr lineDistanceMap)"
    by (simp add: DistanceMap_t_new_def lineBitfield_def lineDistanceMap_def GeoVolume_t_new_def
        Volume_t_new_def Volume_t_init_def rootSizeOf_2 Let_def
        markFeatures_def storeDistances_def GeoVolume_get_def GeoVolume_set_def
        Volume_get_def Volume_set_def Node_set.simps findOctant_def toOctant_def
        OCT_X_def OCT_Y_def OCT_Z_def collapse_def fullMatch_def drop_bit_eq_div
        sqr_def sqrt_30000 upto_0_1)
  moreover have "GeoVolume_get lineDistanceMap 0 0 0 = Inr 0"
    "GeoVolume_get lineDistanceMap 1 0 0 = Inr 100"
    by (simp_all add: lineDistanceMap_def GeoVolume_get_def Volume_get_def findOctant_def
        toOctant_def OCT_X_def OCT_Y_def OCT_Z_def drop_bit_eq_div)
  ultimately show ?thesis
    using lineBitfield_built by (simp add: lineDistanceMap_def)
qed

end
